theory Spec2Isabelle
  imports Complex_Main
begin

section \<open>Data model of the backend route \<open>routes/ask.ts\<close>\<close>

text \<open>
  Timestamps are JavaScript epoch milliseconds (\<open>Date.now()\<close>, \<open>getTime()\<close>).
  The declarations of \<open>types/search.ts\<close> are not part of the sources at hand; the
  records below list the fields that \<open>ask.ts\<close> reads and writes.  The status type has the
  five values that the route stores or sends.
\<close>

type_synonym time = int

datatype status = Pending | Partial | Processing | Complete | Failed

record SearchHit =
  hit_id :: string
  hit_source :: string
  content :: string
  hit_metadata :: "(string \<times> string) list"
  relevance :: rat

record DOMInstruction =
  ins_request_id :: string
  ins_source :: string
  ins_keywords :: "string list"

text \<open>The synthesizer's answer is an object (always truthy once set).\<close>

datatype Answer = Answer string

record QueryAnalysis =
  needsGmail :: bool
  needsCalendar :: bool
  needsLinkedIn :: bool
  needsWhatsApp :: bool
  linkedInKeywords :: "string list option"
  whatsAppKeywords :: "string list option"

record GmailQueryPlan =
  intent :: string
  gmailQuery :: string

record PendingSearch =
  request_id :: string
  user_id :: string
  query :: string
  requires_extension :: bool
  sources_needed :: "string list"
  instructions :: "DOMInstruction list"
  results :: "string \<rightharpoonup> SearchHit list"
  status :: status
  created_at :: time
  conversation_id :: "string option"
  answer :: "Answer option"
  metadata :: "QueryAnalysis \<times> GmailQueryPlan option"

text \<open>
  The process-wide \<open>pendingSearches\<close> map, together with what the event loop holds for
  it: the detached synthesis tasks that were started and have not finished (each captured
  its \<open>requestId\<close>; request ids are drawn by \<open>crypto.randomUUID()\<close>, so the captured
  object is the entry stored under that id), and the \<open>setTimeout\<close> deletions that are
  scheduled, with their due times.
\<close>

record server =
  pendingSearches :: "string \<rightharpoonup> PendingSearch"
  tasks :: "string list"
  timers :: "(time \<times> string) list"

text \<open>
  Replies.  \<open>ErrorReply c fields\<close> is \<open>reply.code(c).send({...})\<close>; the other
  constructors are the objects the handlers return with HTTP 200.
\<close>

datatype response =
    ErrorReply nat "(string \<times> string) list"
  | PendingReply string "string list" "DOMInstruction list"
  | CompleteReply string Answer "string list" "string option"
  | StatusReply status string "string list" "Answer option"
  | DomReply status string

section \<open>Polling: \<open>GET /ask/:requestId\<close> and \<open>GET /ask/:requestId/status\<close>\<close>

definition get_ask :: "string \<Rightarrow> string \<Rightarrow> server \<Rightarrow> response \<times> server" where
  "get_ask userId requestId s =
     (case pendingSearches s requestId of
        None \<Rightarrow> (ErrorReply 404 [(''error'', ''Search not found'')], s)
      | Some pendingSearch \<Rightarrow>
          if user_id pendingSearch \<noteq> userId
          then (ErrorReply 403 [(''error'', ''Not authorized'')], s)
          else (StatusReply (status pendingSearch) requestId (sources_needed pendingSearch)
                  (if status pendingSearch = Complete \<and> answer pendingSearch \<noteq> None
                   then answer pendingSearch else None), s))"

text \<open>The legacy route repeats the handler word for word.\<close>

definition get_ask_status :: "string \<Rightarrow> string \<Rightarrow> server \<Rightarrow> response \<times> server" where
  "get_ask_status userId requestId s =
     (case pendingSearches s requestId of
        None \<Rightarrow> (ErrorReply 404 [(''error'', ''Search not found'')], s)
      | Some pendingSearch \<Rightarrow>
          if user_id pendingSearch \<noteq> userId
          then (ErrorReply 403 [(''error'', ''Not authorized'')], s)
          else (StatusReply (status pendingSearch) requestId (sources_needed pendingSearch)
                  (if status pendingSearch = Complete \<and> answer pendingSearch \<noteq> None
                   then answer pendingSearch else None), s))"

section \<open>Submitting scraped snippets: \<open>POST /ask/:requestId/dom-results\<close>\<close>

text \<open>
  Decimal rendering of an array index, as the template literal prints it.  The
  relevance literal \<open>0.9\<close> is kept as the rational nine tenths.
\<close>

fun string_of_nat :: "nat \<Rightarrow> string" where
  "string_of_nat n =
     (if n < 10 then [char_of (48 + n)]
      else string_of_nat (n div 10) @ [char_of (48 + n mod 10)])"

declare string_of_nat.simps [simp del]

definition normalizedResults :: "string \<Rightarrow> string list \<Rightarrow> SearchHit list" where
  "normalizedResults source snippets =
     map (\<lambda>(index, snippet).
            \<lparr>hit_id = source @ ''-'' @ string_of_nat index,
             hit_source = source,
             content = snippet,
             hit_metadata = [],
             relevance = 9 / 10\<rparr>)
         (enumerate 0 snippets)"

text \<open>
  \<open>sources_needed.every(src => results[src] && results[src].length >= 0)\<close>: an array,
  empty or not, is truthy; a missing key is \<open>undefined\<close>.
\<close>

definition allSourcesComplete :: "PendingSearch \<Rightarrow> bool" where
  "allSourcesComplete pendingSearch =
     list_all (\<lambda>src. case results pendingSearch src of
                        None \<Rightarrow> False
                      | Some hits \<Rightarrow> 0 \<le> length hits)
              (sources_needed pendingSearch)"

text \<open>
  The handler.  When all sources are complete the asynchronous function is called and
  not awaited: a task is recorded and the reply is sent; the stored entry only receives
  the new \<open>results[source]\<close>.  Otherwise the entry's status is set to \<open>partial\<close>.
  The \<open>results\<close> object is a map from property names to hit lists; every string is
  taken as an ordinary property name.
\<close>

definition dom_results ::
    "string \<Rightarrow> string \<Rightarrow> string \<Rightarrow> string list \<Rightarrow> server \<Rightarrow> response \<times> server" where
  "dom_results userId requestId source snippets s =
     (case pendingSearches s requestId of
        None \<Rightarrow> (ErrorReply 404 [(''error'', ''Search not found'')], s)
      | Some pendingSearch \<Rightarrow>
          if user_id pendingSearch \<noteq> userId
          then (ErrorReply 403 [(''error'', ''Not authorized'')], s)
          else
            let stored = pendingSearch
                  \<lparr>results := (results pendingSearch)
                                (source \<mapsto> normalizedResults source snippets)\<rparr>
            in if allSourcesComplete stored
               then (DomReply Processing requestId,
                     s\<lparr>pendingSearches := (pendingSearches s)(requestId \<mapsto> stored),
                       tasks := tasks s @ [requestId]\<rparr>)
               else (DomReply Partial requestId,
                     s\<lparr>pendingSearches :=
                         (pendingSearches s)(requestId \<mapsto> stored\<lparr>status := Partial\<rparr>)\<rparr>))"

text \<open>
  The detached task finishing at time \<open>now\<close>.  Its outcome is that of the external
  calls it awaits (history lookup, \<open>synthesizeAnswer\<close>, history update): \<open>Inr answer\<close>
  when none of them throws.  On success the answer and the status are written and the
  deletion is scheduled 30 seconds ahead; in the \<open>catch\<close> branch only the status is
  written.  The writes go to the captured object, which is the stored entry for as long
  as it has not been deleted.
\<close>

definition synthesis_done :: "string \<Rightarrow> string + Answer \<Rightarrow> time \<Rightarrow> server \<Rightarrow> server" where
  "synthesis_done requestId outcome now s =
     (if requestId \<notin> set (tasks s) then s
      else
        let s1 = s\<lparr>tasks := remove1 requestId (tasks s)\<rparr> in
        case outcome of
          Inr a \<Rightarrow>
            s1\<lparr>pendingSearches :=
                 (case pendingSearches s1 requestId of
                    None \<Rightarrow> pendingSearches s1
                  | Some p \<Rightarrow> (pendingSearches s1)
                               (requestId \<mapsto> p\<lparr>answer := Some a, status := Complete\<rparr>)),
               timers := timers s1 @ [(now + 30000, requestId)]\<rparr>
        | Inl err \<Rightarrow>
            s1\<lparr>pendingSearches :=
                 (case pendingSearches s1 requestId of
                    None \<Rightarrow> pendingSearches s1
                  | Some p \<Rightarrow> (pendingSearches s1)(requestId \<mapsto> p\<lparr>status := Failed\<rparr>))\<rparr>)"

text \<open>
  The event loop running, at time \<open>now\<close>, every scheduled deletion that is due:
  \<open>pendingSearches.delete(requestId)\<close>.
\<close>

definition run_timers :: "time \<Rightarrow> server \<Rightarrow> server" where
  "run_timers now s =
     s\<lparr>pendingSearches :=
         (\<lambda>id. if id \<in> snd ` set (filter (\<lambda>(due, _). due \<le> now) (timers s))
               then None else pendingSearches s id),
       timers := filter (\<lambda>(due, _). \<not> due \<le> now) (timers s)\<rparr>"

section \<open>Registration at the end of \<open>POST /ask\<close>\<close>

text \<open>
  The local variables of the \<open>POST /ask\<close> handler that are alive when it decides between
  the pending and the synchronous reply.  \<open>l_results\<close> is the handler's \<open>results\<close> array
  of hits, \<open>l_conversationId\<close> its \<open>currentConversationId\<close>.
\<close>

record locals =
  l_requestId :: string
  l_userId :: string
  l_query :: string
  l_conversationId :: "string option"
  l_analysis :: QueryAnalysis
  l_accessToken :: string
  l_results :: "SearchHit list"
  l_sourcesNeeded :: "string list"
  l_domInstructions :: "DOMInstruction list"
  l_gmailPlan :: "GmailQueryPlan option"

text \<open>
  The object literal stored for a pending search.  Both \<open>gmail\<close> and \<open>calendar\<close> are
  written as keys of \<open>results\<close>, whatever \<open>sourcesNeeded\<close> holds.  An empty
  \<open>currentConversationId\<close> is falsy, so no \<open>conversation_id\<close> is spread in.
\<close>

definition new_pendingSearch :: "locals \<Rightarrow> time \<Rightarrow> PendingSearch" where
  "new_pendingSearch l now =
     \<lparr>request_id = l_requestId l,
      user_id = l_userId l,
      query = l_query l,
      requires_extension = True,
      sources_needed = l_sourcesNeeded l,
      instructions = l_domInstructions l,
      results = [''gmail'' \<mapsto> filter (\<lambda>r. hit_source r = ''gmail'') (l_results l),
                 ''calendar'' \<mapsto> filter (\<lambda>r. hit_source r = ''calendar'') (l_results l)],
      status = Pending,
      created_at = now,
      conversation_id =
        (case l_conversationId l of
           None \<Rightarrow> None
         | Some c \<Rightarrow> if c = [] then None else Some c),
      answer = None,
      metadata = (l_analysis l, l_gmailPlan l)\<rparr>"

text \<open>
  The loop over the map that deletes every entry created before \<open>fiveMinutesAgo\<close>;
  it looks at \<open>created_at\<close> only.
\<close>

definition sweep :: "time \<Rightarrow> (string \<rightharpoonup> PendingSearch) \<Rightarrow> (string \<rightharpoonup> PendingSearch)" where
  "sweep fiveMinutesAgo m =
     (\<lambda>id. case m id of
              None \<Rightarrow> None
            | Some search \<Rightarrow> if created_at search < fiveMinutesAgo then None else Some search)"

text \<open>
  Storing the entry, sweeping, and the pending reply.  No \<open>await\<close> separates
  \<open>new Date()\<close> of \<open>created_at\<close> from \<open>Date.now()\<close> of the sweep, so one clock
  reading \<open>now\<close> stands for both.
\<close>

definition register_pending :: "locals \<Rightarrow> time \<Rightarrow> server \<Rightarrow> response \<times> server" where
  "register_pending l now s =
     (let pendingSearch = new_pendingSearch l now;
          m = (pendingSearches s)(l_requestId l \<mapsto> pendingSearch);
          fiveMinutesAgo = now - 5 * 60 * 1000
      in (PendingReply (l_requestId l)
            (filter (\<lambda>s. s = ''linkedin'' \<or> s = ''whatsapp'') (l_sourcesNeeded l))
            (l_domInstructions l),
          s\<lparr>pendingSearches := sweep fiveMinutesAgo m\<rparr>))"

section \<open>Histories of the pending store\<close>

text \<open>
  What can happen to the store, one event at a time: a registration, a poll on either
  route, a submission, a background synthesis finishing, the event loop running due
  timers.
\<close>

datatype event =
    Register locals time
  | Poll string string
  | PollStatus string string
  | Submit string string string "string list"
  | SynthesisDone string "string + Answer" time
  | Timers time

fun apply_event :: "event \<Rightarrow> server \<Rightarrow> server" where
  "apply_event (Register l now) s = snd (register_pending l now s)"
| "apply_event (Poll userId requestId) s = snd (get_ask userId requestId s)"
| "apply_event (PollStatus userId requestId) s = snd (get_ask_status userId requestId s)"
| "apply_event (Submit userId requestId source snippets) s =
     snd (dom_results userId requestId source snippets s)"
| "apply_event (SynthesisDone requestId outcome now) s = synthesis_done requestId outcome now s"
| "apply_event (Timers now) s = run_timers now s"

definition empty_server :: server where
  "empty_server = \<lparr>pendingSearches = Map.empty, tasks = [], timers = []\<rparr>"

definition run :: "event list \<Rightarrow> server \<Rightarrow> server" where
  "run evs s = foldl (\<lambda>s ev. apply_event ev s) s evs"

section \<open>The \<open>POST /ask\<close> handler\<close>

text \<open>
  A thrown value, as far as the handler inspects it: the four places where the 401
  classifier looks for a status code.
\<close>

record api_error =
  err_code :: "int option"
  err_status :: "int option"
  err_response_status :: "int option"
  err_response_data_error_code :: "int option"

definition isUnauthorized :: "api_error \<Rightarrow> bool" where
  "isUnauthorized error =
     (err_code error = Some 401 \<or>
      err_status error = Some 401 \<or>
      err_response_status error = Some 401 \<or>
      err_response_data_error_code error = Some 401)"

text \<open>\<open>new Error('No access token returned from refresh')\<close> carries no status code.\<close>

definition no_access_token_error :: api_error where
  "no_access_token_error =
     \<lparr>err_code = None, err_status = None, err_response_status = None,
      err_response_data_error_code = None\<rparr>"

record NewTokens =
  new_access_token :: "string option"
  expiry_date :: "time option"

record FeatureFlags =
  enableAsyncMode :: bool

text \<open>The user's row of the \<open>connections\<close> table; a null expiry is \<open>None\<close>.\<close>

record connection =
  conn_access_token :: string
  conn_refresh_token :: string
  token_expires_at :: "time option"

type_synonym RawItem = string

text \<open>
  Everything the handler receives from outside, per request: the parsed body (query and
  optional conversation id; \<open>None\<close> when \<open>safeParse\<close> fails), the drawn request id, the
  authenticated user, the conversation id that the history block settles on, the
  connection row, and the collaborators of \<open>lib/\<close>, none of which is among the sources
  at hand.  A collaborator that is called more than once takes the number of earlier calls
  as its first argument, so that successive calls may answer differently; one that may
  throw returns a sum.  Arguments that are fixed for the request (conversation history,
  calendar date range) are not passed.  \<open>filterAnalysisByFlags\<close> here yields the
  analysis after the object spread.  The three clock fields are the readings of the expiry check, of the
  \<open>k\<close>-th token refresh, and of the registration.
\<close>

record ask_env =
  e_body :: "(string \<times> string option) option"
  e_requestId :: string
  e_userId :: string
  e_conversationId :: "string option"
  e_googleConnection :: "connection option"
  decryptTokens :: "connection \<Rightarrow> api_error + string \<times> string"
  refreshAccessToken :: "nat \<Rightarrow> string \<Rightarrow> api_error + NewTokens"
  supabaseAdmin :: bool
  encrypt :: "string \<Rightarrow> api_error + string"
  getFeatureFlags :: "api_error + FeatureFlags"
  analyzeQuery :: "api_error + QueryAnalysis"
  filterAnalysisByFlags :: "QueryAnalysis \<Rightarrow> FeatureFlags \<Rightarrow> QueryAnalysis"
  planGmailQuery :: "api_error + GmailQueryPlan"
  searchGmail :: "nat \<Rightarrow> string \<Rightarrow> string \<Rightarrow> nat \<Rightarrow> api_error + RawItem list"
  getCalendarEvents :: "nat \<Rightarrow> string \<Rightarrow> api_error + RawItem list"
  normalizeGmailResults :: "RawItem list \<Rightarrow> SearchHit list"
  normalizeCalendarResults :: "RawItem list \<Rightarrow> SearchHit list"
  mergeResults :: "SearchHit list \<Rightarrow> SearchHit list"
  synthesizeAnswer :: "string \<Rightarrow> SearchHit list \<Rightarrow> api_error + Answer"
  now_check :: time
  now_refresh :: "nat \<Rightarrow> time"
  now_register :: time

text \<open>
  What the handler does to the outside: the refresh tokens sent to the OAuth endpoint,
  the access tokens used for each Gmail and Calendar call, and the rows written back to
  \<open>connections\<close> (encrypted token, expiry), all in call order.
\<close>

record world =
  refresh_calls :: "string list"
  gmail_calls :: "string list"
  calendar_calls :: "string list"
  connection_updates :: "(string \<times> time) list"

definition refreshAndUpdateToken ::
    "ask_env \<Rightarrow> string \<Rightarrow> world \<Rightarrow> (api_error + string) \<times> world" where
  "refreshAndUpdateToken env refresh_token w =
     (let k = length (refresh_calls w);
          w1 = w\<lparr>refresh_calls := refresh_calls w @ [refresh_token]\<rparr>
      in case refreshAccessToken env k refresh_token of
           Inl error \<Rightarrow> (Inl error, w1)
         | Inr newTokens \<Rightarrow>
             (case new_access_token newTokens of
                None \<Rightarrow> (Inl no_access_token_error, w1)
              | Some tok \<Rightarrow>
                  if tok = [] then (Inl no_access_token_error, w1)
                  else if supabaseAdmin env then
                    (case encrypt env tok of
                       Inl error \<Rightarrow> (Inl error, w1)
                     | Inr encryptedAccessToken \<Rightarrow>
                         (Inr tok,
                          w1\<lparr>connection_updates := connection_updates w1 @
                               [(encryptedAccessToken,
                                 case expiry_date newTokens of
                                   None \<Rightarrow> now_refresh env k + 3600000
                                 | Some d \<Rightarrow> if d = 0 then now_refresh env k + 3600000 else d)]\<rparr>))
                  else (Inr tok, w1)))"

text \<open>\<open>!tokenExpiry || tokenExpiry < new Date()\<close>\<close>

definition needsRefresh :: "time option \<Rightarrow> time \<Rightarrow> bool" where
  "needsRefresh tokenExpiry now =
     (case tokenExpiry of None \<Rightarrow> True | Some t \<Rightarrow> t < now)"

definition call_searchGmail ::
    "ask_env \<Rightarrow> string \<Rightarrow> nat \<Rightarrow> string \<Rightarrow> world \<Rightarrow> (api_error + RawItem list) \<times> world" where
  "call_searchGmail env q maxResults accessToken w =
     (searchGmail env (length (gmail_calls w)) accessToken q maxResults,
      w\<lparr>gmail_calls := gmail_calls w @ [accessToken]\<rparr>)"

definition call_getCalendarEvents ::
    "ask_env \<Rightarrow> string \<Rightarrow> world \<Rightarrow> (api_error + RawItem list) \<times> world" where
  "call_getCalendarEvents env accessToken w =
     (getCalendarEvents env (length (calendar_calls w)) accessToken,
      w\<lparr>calendar_calls := calendar_calls w @ [accessToken]\<rparr>)"

text \<open>
  The inner \<open>try\<close>/\<open>catch\<close> that the handler writes out once for Gmail and once for
  Calendar, with the provider call as a parameter.  The result carries the value of the
  handler's \<open>accessToken\<close> variable afterwards: it is assigned as soon as the refresh
  returns, before the second call.
\<close>

definition retryOn401 ::
    "ask_env \<Rightarrow> string \<Rightarrow> (string \<Rightarrow> world \<Rightarrow> (api_error + 'a) \<times> world) \<Rightarrow> string \<Rightarrow> world
       \<Rightarrow> (api_error + 'a) \<times> string \<times> world" where
  "retryOn401 env refresh_token call accessToken w =
     (case call accessToken w of
        (Inr r, w1) \<Rightarrow> (Inr r, accessToken, w1)
      | (Inl error, w1) \<Rightarrow>
          if isUnauthorized error then
            (case refreshAndUpdateToken env refresh_token w1 of
               (Inl refreshError, w2) \<Rightarrow> (Inl refreshError, accessToken, w2)
             | (Inr tok, w2) \<Rightarrow>
                 (case call tok w2 of
                    (Inl refreshError, w3) \<Rightarrow> (Inl refreshError, tok, w3)
                  | (Inr r, w3) \<Rightarrow> (Inr r, tok, w3)))
          else (Inl error, accessToken, w1))"

text \<open>
  Step 2.  \<open>'gmail'\<close> is pushed before anything is attempted; the outer \<open>catch\<close> logs
  and goes on.
\<close>

definition fetch_gmail :: "ask_env \<Rightarrow> string \<Rightarrow> locals \<times> world \<Rightarrow> locals \<times> world" where
  "fetch_gmail env refresh_token lw =
     (case lw of (l, w) \<Rightarrow>
        if needsGmail (l_analysis l) then
          let l1 = l\<lparr>l_sourcesNeeded := l_sourcesNeeded l @ [''gmail'']\<rparr> in
          (case planGmailQuery env of
             Inl error \<Rightarrow> (l1, w)
           | Inr plan \<Rightarrow>
               let l2 = l1\<lparr>l_gmailPlan := Some plan\<rparr>;
                   maxResults = (if intent plan = ''summary'' \<or> intent plan = ''count''
                                 then 20 else 10)
               in (case retryOn401 env refresh_token
                          (call_searchGmail env (gmailQuery plan) maxResults)
                          (l_accessToken l2) w of
                     (Inl error, tok, w') \<Rightarrow> (l2\<lparr>l_accessToken := tok\<rparr>, w')
                   | (Inr messages, tok, w') \<Rightarrow>
                       (l2\<lparr>l_accessToken := tok,
                           l_results := l_results l2 @ normalizeGmailResults env messages\<rparr>,
                        w')))
        else (l, w))"

text \<open>Step 3, the same for Calendar.\<close>

definition fetch_calendar :: "ask_env \<Rightarrow> string \<Rightarrow> locals \<times> world \<Rightarrow> locals \<times> world" where
  "fetch_calendar env refresh_token lw =
     (case lw of (l, w) \<Rightarrow>
        if needsCalendar (l_analysis l) then
          let l1 = l\<lparr>l_sourcesNeeded := l_sourcesNeeded l @ [''calendar'']\<rparr> in
          (case retryOn401 env refresh_token (call_getCalendarEvents env)
                  (l_accessToken l1) w of
             (Inl error, tok, w') \<Rightarrow> (l1\<lparr>l_accessToken := tok\<rparr>, w')
           | (Inr events, tok, w') \<Rightarrow>
               (l1\<lparr>l_accessToken := tok,
                   l_results := l_results l1 @ normalizeCalendarResults env events\<rparr>,
                w'))
        else (l, w))"

text \<open>
  Step 4: an instruction, and the entry in \<open>sourcesNeeded\<close>, only for an extension
  source that is needed and has a non-empty keyword list.
\<close>

definition add_linkedin :: "locals \<Rightarrow> locals" where
  "add_linkedin l =
     (case linkedInKeywords (l_analysis l) of
        None \<Rightarrow> l
      | Some ks \<Rightarrow>
          if needsLinkedIn (l_analysis l) \<and> length ks \<noteq> 0 then
            l\<lparr>l_sourcesNeeded := l_sourcesNeeded l @ [''linkedin''],
              l_domInstructions := l_domInstructions l @
                [\<lparr>ins_request_id = l_requestId l, ins_source = ''linkedin'',
                  ins_keywords = ks\<rparr>]\<rparr>
          else l)"

definition add_whatsapp :: "locals \<Rightarrow> locals" where
  "add_whatsapp l =
     (case whatsAppKeywords (l_analysis l) of
        None \<Rightarrow> l
      | Some ks \<Rightarrow>
          if needsWhatsApp (l_analysis l) \<and> length ks \<noteq> 0 then
            l\<lparr>l_sourcesNeeded := l_sourcesNeeded l @ [''whatsapp''],
              l_domInstructions := l_domInstructions l @
                [\<lparr>ins_request_id = l_requestId l, ins_source = ''whatsapp'',
                  ins_keywords = ks\<rparr>]\<rparr>
          else l)"

definition needsExtension :: "FeatureFlags \<Rightarrow> QueryAnalysis \<Rightarrow> bool" where
  "needsExtension featureFlags analysis =
     (enableAsyncMode featureFlags \<and> (needsLinkedIn analysis \<or> needsWhatsApp analysis))"

definition processing_failed :: "string \<Rightarrow> response" where
  "processing_failed requestId =
     ErrorReply 500 [(''error'', ''Failed to process query''), (''request_id'', requestId)]"

text \<open>Step 5, the synchronous reply.\<close>

definition sync_reply :: "ask_env \<Rightarrow> locals \<Rightarrow> response" where
  "sync_reply env l =
     (let actualSourcesSearched =
            filter (\<lambda>s. s = ''gmail'' \<or> s = ''calendar'') (l_sourcesNeeded l);
          mergedResults = mergeResults env (l_results l)
      in case synthesizeAnswer env (l_query l) mergedResults of
           Inl error \<Rightarrow> processing_failed (l_requestId l)
         | Inr a \<Rightarrow>
             CompleteReply (l_requestId l) a actualSourcesSearched (l_conversationId l))"

text \<open>The handler's locals at the start of the \<open>try\<close> block, once the analysis is known.\<close>

definition initial_locals :: "ask_env \<Rightarrow> string \<Rightarrow> QueryAnalysis \<Rightarrow> string \<Rightarrow> locals" where
  "initial_locals env q analysis accessToken =
     \<lparr>l_requestId = e_requestId env, l_userId = e_userId env,
      l_query = q, l_conversationId = e_conversationId env,
      l_analysis = analysis, l_accessToken = accessToken,
      l_results = [], l_sourcesNeeded = [],
      l_domInstructions = [], l_gmailPlan = None\<rparr>"

text \<open>The body of the big \<open>try\<close>: flags, analysis, fetches, then one of the two replies.\<close>

definition ask_process ::
    "ask_env \<Rightarrow> string \<Rightarrow> string \<Rightarrow> string \<Rightarrow> world \<Rightarrow> server \<Rightarrow> response \<times> world \<times> server" where
  "ask_process env q refresh_token accessToken w s =
     (case getFeatureFlags env of
        Inl error \<Rightarrow> (processing_failed (e_requestId env), w, s)
      | Inr featureFlags \<Rightarrow>
          (case analyzeQuery env of
             Inl error \<Rightarrow> (processing_failed (e_requestId env), w, s)
           | Inr rawAnalysis \<Rightarrow>
               let analysis = filterAnalysisByFlags env rawAnalysis featureFlags;
                   l0 = initial_locals env q analysis accessToken
               in (case fetch_calendar env refresh_token
                          (fetch_gmail env refresh_token (l0, w)) of
                     (l2, w2) \<Rightarrow>
                       let l4 = add_whatsapp (add_linkedin l2) in
                       if needsExtension featureFlags analysis
                       then (case register_pending l4 (now_register env) s of
                               (r, s') \<Rightarrow> (r, w2, s'))
                       else (sync_reply env l4, w2, s))))"

text \<open>
  The expiry check before the \<open>try\<close>: either the access token to go on with, or the
  reply that ends the request.
\<close>

definition check_token ::
    "ask_env \<Rightarrow> connection \<Rightarrow> string \<Rightarrow> string \<Rightarrow> world \<Rightarrow> (response + string) \<times> world" where
  "check_token env googleConnection access_token refresh_token w =
     (if needsRefresh (token_expires_at googleConnection) (now_check env) then
        (case refreshAndUpdateToken env refresh_token w of
           (Inl error, w1) \<Rightarrow>
             (Inl (ErrorReply 400
                     [(''error'',
                       ''Failed to refresh Google token. Please reconnect your account.''),
                      (''code'', ''TOKEN_REFRESH_FAILED'')]), w1)
         | (Inr accessToken, w1) \<Rightarrow> (Inr accessToken, w1))
      else (Inr access_token, w))"

text \<open>
  The whole handler: body validation, connection lookup, decryption, the expiry check,
  then the \<open>try\<close> block.  The database writes that have no part in the reply
  (expired-conversation cleanup, usage event, conversation history) are left out, and so
  are the \<open>details\<close> of a body that does not parse.
\<close>

definition ask :: "ask_env \<Rightarrow> world \<Rightarrow> server \<Rightarrow> response \<times> world \<times> server" where
  "ask env w s =
     (case e_body env of
        None \<Rightarrow> (ErrorReply 400 [(''error'', ''Invalid request body'')], w, s)
      | Some (q, conversationId) \<Rightarrow>
          (case e_googleConnection env of
             None \<Rightarrow>
               (ErrorReply 400 [(''error'', ''Google account not connected''),
                                (''code'', ''GOOGLE_NOT_CONNECTED'')], w, s)
           | Some googleConnection \<Rightarrow>
               (case decryptTokens env googleConnection of
                  Inl error \<Rightarrow>
                    (ErrorReply 500
                       [(''error'',
                         ''Failed to decrypt stored tokens. Please reconnect your account.''),
                        (''code'', ''DECRYPTION_FAILED'')], w, s)
                | Inr (access_token, refresh_token) \<Rightarrow>
                    (case check_token env googleConnection access_token refresh_token w of
                       (Inl reply, w1) \<Rightarrow> (reply, w1, s)
                     | (Inr accessToken, w1) \<Rightarrow>
                         ask_process env q refresh_token accessToken w1 s))))"

text \<open>Whether a reply is one of the \<open>reply.code(...)\<close> errors.\<close>

fun is_error :: "response \<Rightarrow> bool" where
  "is_error (ErrorReply c body) = True"
| "is_error r = False"

text \<open>
  Reading a history: the sources submitted for a request, in order, and the request ids
  registered, in order.
\<close>

fun submit_sources :: "string \<Rightarrow> event list \<Rightarrow> string list" where
  "submit_sources rid [] = []"
| "submit_sources rid (Submit userId requestId source snippets # evs) =
     (if requestId = rid then source # submit_sources rid evs else submit_sources rid evs)"
| "submit_sources rid (ev # evs) = submit_sources rid evs"

fun registered :: "event list \<Rightarrow> string list" where
  "registered [] = []"
| "registered (Register l now # evs) = l_requestId l # registered evs"
| "registered (ev # evs) = registered evs"

text \<open>How far along a status is; the two final statuses are level.\<close>

fun stage :: "status \<Rightarrow> nat" where
  "stage Pending = 0"
| "stage Partial = 1"
| "stage Processing = 2"
| "stage Complete = 3"
| "stage Failed = 3"

text \<open>
  What holds of the store after any history in which every registration draws a new id
  (\<open>R\<close> is the set of ids drawn so far): stored and captured ids were drawn; the status
  \<open>processing\<close> is never stored; a stored \<open>complete\<close> comes with an answer; and an entry
  that is final, or has a synthesis running, has all its needed sources present.
\<close>

definition store_inv :: "string set \<Rightarrow> server \<Rightarrow> bool" where
  "store_inv R s \<longleftrightarrow>
     set (tasks s) \<subseteq> R \<and>
     (\<forall>rid p. pendingSearches s rid = Some p \<longrightarrow>
        rid \<in> R \<and>
        status p \<noteq> Processing \<and>
        (status p = Complete \<longrightarrow> answer p \<noteq> None) \<and>
        (status p = Complete \<or> status p = Failed \<or> rid \<in> set (tasks s)
           \<longrightarrow> allSourcesComplete p))"

text \<open>Reading the store: what \<open>results[source]\<close> holds for a request, if anything.\<close>

definition stored_results :: "server \<Rightarrow> string \<Rightarrow> string \<Rightarrow> SearchHit list option" where
  "stored_results s requestId source =
     (case pendingSearches s requestId of
        None \<Rightarrow> None
      | Some pendingSearch \<Rightarrow> results pendingSearch source)"

text \<open>The same for the stored status, answer and needed sources.\<close>

definition stored_status :: "server \<Rightarrow> string \<Rightarrow> status option" where
  "stored_status s requestId = map_option status (pendingSearches s requestId)"

definition stored_answer :: "server \<Rightarrow> string \<Rightarrow> Answer option" where
  "stored_answer s requestId =
     (case pendingSearches s requestId of
        None \<Rightarrow> None
      | Some pendingSearch \<Rightarrow> answer pendingSearch)"

definition stored_sources_needed :: "server \<Rightarrow> string \<Rightarrow> string list option" where
  "stored_sources_needed s requestId = map_option sources_needed (pendingSearches s requestId)"

section \<open>Concrete requests used to exercise the theorems\<close>

text \<open>
  A request by \<open>alice\<close> at time 1000 whose analysis asks for Gmail and LinkedIn, with
  asynchronous mode on, a token that expires at 5000, and collaborators that all succeed.
\<close>

definition ex_analysis :: QueryAnalysis where
  "ex_analysis =
     \<lparr>needsGmail = True, needsCalendar = False, needsLinkedIn = True, needsWhatsApp = False,
      linkedInKeywords = Some [''rust''], whatsAppKeywords = None\<rparr>"

definition ex_plan :: GmailQueryPlan where
  "ex_plan = \<lparr>intent = ''search'', gmailQuery = ''rust''\<rparr>"

definition ex_hit :: "string \<Rightarrow> RawItem \<Rightarrow> SearchHit" where
  "ex_hit src r =
     \<lparr>hit_id = r, hit_source = src, content = r, hit_metadata = [], relevance = 1 / 2\<rparr>"

definition ex_env :: ask_env where
  "ex_env =
     \<lparr>e_body = Some (''who wrote about rust'', None),
      e_requestId = ''r1'',
      e_userId = ''alice'',
      e_conversationId = None,
      e_googleConnection =
        Some \<lparr>conn_access_token = ''enc-t0'', conn_refresh_token = ''enc-rt'',
              token_expires_at = Some 5000\<rparr>,
      decryptTokens = (\<lambda>c. Inr (''t0'', ''rt'')),
      refreshAccessToken = (\<lambda>k rt. Inr \<lparr>new_access_token = Some ''t1'', expiry_date = None\<rparr>),
      supabaseAdmin = True,
      encrypt = (\<lambda>tok. Inr (''enc-'' @ tok)),
      getFeatureFlags = Inr \<lparr>enableAsyncMode = True\<rparr>,
      analyzeQuery = Inr ex_analysis,
      filterAnalysisByFlags = (\<lambda>a f. a),
      planGmailQuery = Inr ex_plan,
      searchGmail = (\<lambda>k tok q n. Inr [''mail-1'']),
      getCalendarEvents = (\<lambda>k tok. Inr [''event-1'']),
      normalizeGmailResults = map (ex_hit ''gmail''),
      normalizeCalendarResults = map (ex_hit ''calendar''),
      mergeResults = (\<lambda>hits. hits),
      synthesizeAnswer = (\<lambda>q hits. Inr (Answer (concat (map content hits)))),
      now_check = 1000,
      now_refresh = (\<lambda>k. 1000),
      now_register = 1000\<rparr>"

definition ex_world :: world where
  "ex_world =
     \<lparr>refresh_calls = [], gmail_calls = [], calendar_calls = [], connection_updates = []\<rparr>"

text \<open>
  A variant that needs Gmail and Calendar and no extension source, so that it is
  answered synchronously.  Gmail rejects the stored token \<open>t0\<close> with a 401 and accepts
  any other; Calendar rejects every token with a 401.
\<close>

definition err401 :: api_error where
  "err401 =
     \<lparr>err_code = None, err_status = Some 401, err_response_status = None,
      err_response_data_error_code = None\<rparr>"

definition ex_env_401 :: ask_env where
  "ex_env_401 =
     ex_env\<lparr>analyzeQuery := Inr (ex_analysis\<lparr>needsCalendar := True, needsLinkedIn := False\<rparr>),
            searchGmail := (\<lambda>k tok q n. if tok = ''t0'' then Inl err401 else Inr [''mail-1'']),
            getCalendarEvents := (\<lambda>k tok. Inl err401)\<rparr>"

text \<open>
  A variant of the first request in which LinkedIn is needed but comes without
  keywords, while WhatsApp is needed and has one.
\<close>

definition ex_env_mixed :: ask_env where
  "ex_env_mixed =
     ex_env\<lparr>analyzeQuery :=
              Inr (ex_analysis\<lparr>linkedInKeywords := Some [], needsWhatsApp := True,
                                whatsAppKeywords := Some [''x'']\<rparr>)\<rparr>"

text \<open>The handler's locals when the first example request reaches the registration.\<close>

definition ex_locals :: locals where
  "ex_locals =
     \<lparr>l_requestId = ''r1'', l_userId = ''alice'', l_query = ''who wrote about rust'',
      l_conversationId = None, l_analysis = ex_analysis, l_accessToken = ''t0'',
      l_results = [ex_hit ''gmail'' ''mail-1''], l_sourcesNeeded = [''gmail'', ''linkedin''],
      l_domInstructions =
        [\<lparr>ins_request_id = ''r1'', ins_source = ''linkedin'', ins_keywords = [''rust'']\<rparr>],
      l_gmailPlan = Some ex_plan\<rparr>"

text \<open>The store after that request was registered.\<close>

definition ex_server :: server where
  "ex_server = snd (register_pending ex_locals 1000 empty_server)"

section \<open>Basic facts\<close>

lemma ex_server_r1:
  "pendingSearches ex_server ''r1'' = Some (new_pendingSearch ex_locals 1000)"
  by (simp add: ex_server_def register_pending_def sweep_def empty_server_def Let_def
        new_pendingSearch_def ex_locals_def)

lemma length_normalizedResults: "length (normalizedResults source snippets) = length snippets"
  by (simp add: normalizedResults_def)

lemma map_content_normalizedResults: "map content (normalizedResults src sn) = sn"
proof -
  have "map content (normalizedResults src sn) = map snd (enumerate 0 sn)"
    by (simp add: normalizedResults_def case_prod_unfold comp_def)
  then show ?thesis by (simp add: enumerate_eq_zip)
qed

lemma hit_source_normalizedResults:
  "list_all (\<lambda>h. hit_source h = src) (normalizedResults src sn)"
  by (simp add: normalizedResults_def list_all_iff case_prod_unfold)

lemma allSourcesComplete_iff:
  "allSourcesComplete p \<longleftrightarrow> set (sources_needed p) \<subseteq> dom (results p)"
  by (auto simp: allSourcesComplete_def list_all_iff split: option.splits)

text \<open>An accepted submission keeps the entry and changes its \<open>results\<close> at one key.\<close>

lemma dom_results_accept:
  assumes "pendingSearches s rid = Some p" "user_id p = u"
  shows "\<exists>p'. pendingSearches (snd (dom_results u rid src sn s)) rid = Some p' \<and>
           user_id p' = u \<and> results p' = (results p)(src \<mapsto> normalizedResults src sn)
           \<and> sources_needed p' = sources_needed p \<and> answer p' = answer p"
  using assms by (simp add: dom_results_def Let_def)

lemmas store_obs_defs = stored_results_def stored_status_def stored_answer_def
  stored_sources_needed_def

lemmas ex_defs = ex_server_def ex_locals_def ex_analysis_def ex_plan_def ex_hit_def
  empty_server_def register_pending_def new_pendingSearch_def sweep_def

lemmas handler_defs = dom_results_def get_ask_def get_ask_status_def synthesis_done_def
  run_timers_def allSourcesComplete_def

text \<open>The example store is what the handler leaves behind for the example request.\<close>

lemma ask_ex:
  "ask ex_env ex_world empty_server =
     (PendingReply ''r1'' [''linkedin'']
        [\<lparr>ins_request_id = ''r1'', ins_source = ''linkedin'', ins_keywords = [''rust'']\<rparr>],
      ex_world\<lparr>gmail_calls := [''t0'']\<rparr>, ex_server)"
  by (simp add: ask_def check_token_def ex_env_def needsRefresh_def ask_process_def
        initial_locals_def ex_analysis_def fetch_gmail_def fetch_calendar_def retryOn401_def
        call_searchGmail_def ex_world_def ex_plan_def add_linkedin_def add_whatsapp_def
        needsExtension_def ex_server_def ex_locals_def register_pending_def Let_def)

section \<open>Re-submission for a source\<close>

text \<open>
  Claim C5.  When the owner submits snippets for a source \<open>S\<close> of a stored request and
  then submits again for \<open>S\<close>, \<open>results[S]\<close> after the second submission is the list of
  hits built from the second submission alone: as many hits as snippets, carrying exactly
  those snippets in order, each tagged with \<open>S\<close>.  The first submission's hits are
  overwritten, not appended to.
\<close>

theorem resubmission_overwrites:
  assumes "pendingSearches s rid = Some p" and "user_id p = u"
  shows "stored_results (snd (dom_results u rid S sn1 s)) rid S
           = Some (normalizedResults S sn1) \<and>
         stored_results (snd (dom_results u rid S sn2 (snd (dom_results u rid S sn1 s)))) rid S
           = Some (normalizedResults S sn2) \<and>
         length (normalizedResults S sn2) = length sn2 \<and>
         map content (normalizedResults S sn2) = sn2 \<and>
         list_all (\<lambda>h. hit_source h = S) (normalizedResults S sn2)"
proof -
  obtain p1 where p1: "pendingSearches (snd (dom_results u rid S sn1 s)) rid = Some p1"
      "user_id p1 = u" "results p1 = (results p)(S \<mapsto> normalizedResults S sn1)"
    using dom_results_accept [OF assms] by blast
  obtain p2 where p2:
      "pendingSearches (snd (dom_results u rid S sn2 (snd (dom_results u rid S sn1 s)))) rid
         = Some p2"
      "results p2 = (results p1)(S \<mapsto> normalizedResults S sn2)"
    using dom_results_accept [OF p1(1) p1(2)] by blast
  from p1 p2 show ?thesis
    by (simp add: stored_results_def length_normalizedResults map_content_normalizedResults
          hit_source_normalizedResults)
qed

theorem resubmission_overwrites_witness:
  "stored_results
     (snd (dom_results ''alice'' ''r1'' ''linkedin'' [''one'']
        (snd (dom_results ''alice'' ''r1'' ''linkedin'' [''a'', ''b'', ''c''] ex_server))))
     ''r1'' ''linkedin'' = Some (normalizedResults ''linkedin'' [''one'']) \<and>
   length (normalizedResults ''linkedin'' [''one'']) = 1"
  using resubmission_overwrites [OF ex_server_r1, of "''alice''" "''linkedin''"
      "[''a'', ''b'', ''c'']" "[''one'']"]
  by (simp add: new_pendingSearch_def ex_locals_def)

section \<open>Ownership\<close>

text \<open>
  Claim C6.  For a stored request owned by one user and any caller with a different
  user id, both polling routes and the submission route reply 403 \<open>Not authorized\<close>, a
  fixed reply that carries nothing of the entry, and leave the whole store as it was.
  For an id that is not stored the three routes reply 404 \<open>Search not found\<close>, and the
  two replies differ.
\<close>

theorem ownership_isolation:
  assumes "pendingSearches s rid = Some p" and "v \<noteq> user_id p"
  shows "get_ask v rid s = (ErrorReply 403 [(''error'', ''Not authorized'')], s) \<and>
         get_ask_status v rid s = (ErrorReply 403 [(''error'', ''Not authorized'')], s) \<and>
         dom_results v rid src sn s = (ErrorReply 403 [(''error'', ''Not authorized'')], s) \<and>
         (\<forall>rid'. pendingSearches s rid' = None \<longrightarrow>
            get_ask v rid' s = (ErrorReply 404 [(''error'', ''Search not found'')], s) \<and>
            get_ask_status v rid' s = (ErrorReply 404 [(''error'', ''Search not found'')], s) \<and>
            dom_results v rid' src sn s
              = (ErrorReply 404 [(''error'', ''Search not found'')], s)) \<and>
         ErrorReply 403 [(''error'', ''Not authorized'')]
           \<noteq> ErrorReply 404 [(''error'', ''Search not found'')]"
  using assms by (auto simp: get_ask_def get_ask_status_def dom_results_def)

theorem ownership_isolation_witness:
  "get_ask ''bob'' ''r1'' ex_server
     = (ErrorReply 403 [(''error'', ''Not authorized'')], ex_server) \<and>
   get_ask_status ''bob'' ''r1'' ex_server
     = (ErrorReply 403 [(''error'', ''Not authorized'')], ex_server) \<and>
   dom_results ''bob'' ''r1'' ''linkedin'' [''x''] ex_server
     = (ErrorReply 403 [(''error'', ''Not authorized'')], ex_server) \<and>
   get_ask ''bob'' ''r2'' ex_server
     = (ErrorReply 404 [(''error'', ''Search not found'')], ex_server) \<and>
   fst (get_ask ''alice'' ''r1'' ex_server)
     = StatusReply Pending ''r1'' [''gmail'', ''linkedin''] None"
proof -
  have o: "''bob'' \<noteq> user_id (new_pendingSearch ex_locals 1000)"
    by (simp add: new_pendingSearch_def ex_locals_def)
  have n: "pendingSearches ex_server ''r2'' = None"
    by (simp add: ex_server_def register_pending_def sweep_def empty_server_def Let_def
        new_pendingSearch_def ex_locals_def)
  have a: "fst (get_ask ''alice'' ''r1'' ex_server)
             = StatusReply Pending ''r1'' [''gmail'', ''linkedin''] None"
    by (simp add: get_ask_def ex_server_r1 new_pendingSearch_def ex_locals_def)
  from ownership_isolation [OF ex_server_r1 o, of "''linkedin''" "[''x'']"] n a
  show ?thesis by blast
qed

section \<open>Completion of a pending search\<close>

text \<open>
  Claim C1, as the code has it.  A submission by the owner is answered with status
  \<open>processing\<close> exactly when, after the write of \<open>results[source]\<close>, every source in
  \<open>sources_needed\<close> is a key of \<open>results\<close>: the keys contain the needed sources, they
  need not equal them.  In that case a background synthesis task is started and the
  handler returns with the task still running and the entry's answer untouched.
  Otherwise the reply is \<open>partial\<close>, the stored status becomes \<open>partial\<close>, and no task is
  started.
\<close>

theorem processing_iff_needed_present:
  assumes "pendingSearches s rid = Some p" and "user_id p = u"
  shows "(fst (dom_results u rid src sn s) = DomReply Processing rid
            \<longleftrightarrow> set (sources_needed p) \<subseteq> insert src (dom (results p))) \<and>
         (set (sources_needed p) \<subseteq> insert src (dom (results p)) \<longrightarrow>
            tasks (snd (dom_results u rid src sn s)) = tasks s @ [rid] \<and>
            stored_answer (snd (dom_results u rid src sn s)) rid = answer p) \<and>
         (\<not> set (sources_needed p) \<subseteq> insert src (dom (results p)) \<longrightarrow>
            fst (dom_results u rid src sn s) = DomReply Partial rid \<and>
            stored_status (snd (dom_results u rid src sn s)) rid = Some Partial \<and>
            tasks (snd (dom_results u rid src sn s)) = tasks s)"
  using assms
  by (simp add: dom_results_def Let_def allSourcesComplete_iff stored_answer_def
        stored_status_def)

theorem processing_iff_needed_present_witness:
  "fst (dom_results ''alice'' ''r1'' ''linkedin'' [''x''] ex_server) = DomReply Processing ''r1'' \<and>
   tasks (snd (dom_results ''alice'' ''r1'' ''linkedin'' [''x''] ex_server)) = [''r1''] \<and>
   fst (dom_results ''alice'' ''r1'' ''whatsapp'' [''x''] ex_server) = DomReply Partial ''r1'' \<and>
   stored_status (snd (dom_results ''alice'' ''r1'' ''whatsapp'' [''x''] ex_server)) ''r1''
     = Some Partial"
proof -
  have u: "user_id (new_pendingSearch ex_locals 1000) = ''alice''"
    by (simp add: new_pendingSearch_def ex_locals_def)
  have t: "tasks ex_server = []"
    by (simp add: ex_server_def register_pending_def Let_def empty_server_def)
  show ?thesis
    using processing_iff_needed_present [OF ex_server_r1 u, of "''linkedin''" "[''x'']"]
      processing_iff_needed_present [OF ex_server_r1 u, of "''whatsapp''" "[''x'']"] t
    by (simp add: new_pendingSearch_def ex_locals_def)
qed

text \<open>
  The claim as worded fails on the example request, whose needed sources are \<open>gmail\<close>
  and \<open>linkedin\<close>: the LinkedIn submission is answered \<open>processing\<close> and starts the task
  although \<open>results\<close> also has the key \<open>calendar\<close>, written at registration, which is not
  a needed source; and the status stored at that moment is still \<open>pending\<close>.
\<close>

theorem completion_is_not_key_equality:
  "fst (dom_results ''alice'' ''r1'' ''linkedin'' [''x''] ex_server) = DomReply Processing ''r1'' \<and>
   tasks (snd (dom_results ''alice'' ''r1'' ''linkedin'' [''x''] ex_server)) = [''r1''] \<and>
   stored_sources_needed (snd (dom_results ''alice'' ''r1'' ''linkedin'' [''x''] ex_server)) ''r1''
     = Some [''gmail'', ''linkedin''] \<and>
   stored_results (snd (dom_results ''alice'' ''r1'' ''linkedin'' [''x''] ex_server)) ''r1''
     ''calendar'' = Some [] \<and>
   stored_status (snd (dom_results ''alice'' ''r1'' ''linkedin'' [''x''] ex_server)) ''r1''
     = Some Pending"
  by (simp add: ex_defs handler_defs store_obs_defs Let_def)

section \<open>Histories, one event at a time\<close>

lemma run_Nil [simp]: "run [] s = s"
  by (simp add: run_def)

lemma run_snoc [simp]: "run (evs @ [ev]) s = apply_event ev (run evs s)"
  by (simp add: run_def)

lemma run_append: "run (evs1 @ evs2) s = run evs2 (run evs1 s)"
  by (simp add: run_def)

lemma submit_sources_append:
  "submit_sources rid (xs @ ys) = submit_sources rid xs @ submit_sources rid ys"
  by (induction rid xs rule: submit_sources.induct) auto

lemma registered_append: "registered (xs @ ys) = registered xs @ registered ys"
  by (induction xs rule: registered.induct) auto

text \<open>How one event can change the entry stored under an id.\<close>

lemma apply_event_entry:
  assumes "pendingSearches (apply_event ev s) rid = Some p'"
  shows "(\<exists>l now. ev = Register l now \<and> l_requestId l = rid \<and> p' = new_pendingSearch l now) \<or>
         (\<exists>p. pendingSearches s rid = Some p \<and>
            (p' = p \<or>
             (\<exists>u src sn. ev = Submit u rid src sn \<and>
                (let stored = p\<lparr>results := (results p)(src \<mapsto> normalizedResults src sn)\<rparr>
                 in if allSourcesComplete stored then p' = stored
                    else p' = stored\<lparr>status := Partial\<rparr>)) \<or>
             (\<exists>a now. ev = SynthesisDone rid (Inr a) now \<and> rid \<in> set (tasks s) \<and>
                p' = p\<lparr>answer := Some a, status := Complete\<rparr>) \<or>
             (\<exists>e now. ev = SynthesisDone rid (Inl e) now \<and> rid \<in> set (tasks s) \<and>
                p' = p\<lparr>status := Failed\<rparr>)))"
proof (cases ev)
  case (Register l now)
  with assms show ?thesis
    by (auto simp: register_pending_def sweep_def Let_def split: option.splits if_splits)
next
  case (Poll u r)
  with assms show ?thesis
    by (auto simp: get_ask_def split: option.splits if_splits)
next
  case (PollStatus u r)
  with assms show ?thesis
    by (auto simp: get_ask_status_def split: option.splits if_splits)
next
  case (Submit u r src sn)
  with assms show ?thesis
    by (auto simp: dom_results_def Let_def split: option.splits if_splits)
next
  case (SynthesisDone r out now)
  with assms show ?thesis
    by (cases out) (auto simp: synthesis_done_def Let_def split: option.splits if_splits)
next
  case (Timers now)
  with assms show ?thesis
    by (auto simp: run_timers_def split: if_splits)
qed

lemma dom_new_pendingSearch: "dom (results (new_pendingSearch l now)) = {''gmail'', ''calendar''}"
  by (auto simp: new_pendingSearch_def)

section \<open>The invariant of the store\<close>

lemma allSourcesComplete_upd:
  "allSourcesComplete p \<Longrightarrow> allSourcesComplete (p\<lparr>results := (results p)(src \<mapsto> hs)\<rparr>)"
  by (auto simp: allSourcesComplete_iff)

lemma allSourcesComplete_status [simp]:
  "allSourcesComplete (p\<lparr>status := st\<rparr>) = allSourcesComplete p"
  by (simp add: allSourcesComplete_def)

lemma allSourcesComplete_answer [simp]:
  "allSourcesComplete (p\<lparr>answer := a\<rparr>) = allSourcesComplete p"
  by (simp add: allSourcesComplete_def)

lemma store_inv_empty: "store_inv {} empty_server"
  by (simp add: store_inv_def empty_server_def)

lemma store_inv_register:
  assumes "store_inv R s" and "l_requestId l \<notin> R"
  shows "store_inv (insert (l_requestId l) R) (snd (register_pending l now s))"
  using assms
  by (auto simp: store_inv_def register_pending_def sweep_def Let_def new_pendingSearch_def
        split: option.splits if_splits)

lemma store_inv_dom_results:
  assumes "store_inv R s"
  shows "store_inv R (snd (dom_results u r src sn s))"
proof (cases "pendingSearches s r")
  case None
  with assms show ?thesis by (simp add: dom_results_def)
next
  case (Some p)
  show ?thesis
  proof (cases "user_id p = u")
    case False
    with Some assms show ?thesis by (simp add: dom_results_def)
  next
    case True
    let ?q = "p\<lparr>results := (results p)(src \<mapsto> normalizedResults src sn)\<rparr>"
    from assms Some have pr: "r \<in> R" "status p \<noteq> Processing"
      "status p = Complete \<longrightarrow> answer p \<noteq> None"
      "status p = Complete \<or> status p = Failed \<or> r \<in> set (tasks s) \<longrightarrow> allSourcesComplete p"
      by (auto simp: store_inv_def)
    show ?thesis
    proof (cases "allSourcesComplete ?q")
      case c: True
      with Some True assms pr show ?thesis
        by (auto simp: store_inv_def dom_results_def Let_def)
    next
      case c: False
      then have "\<not> allSourcesComplete p" using allSourcesComplete_upd by blast
      with c Some True assms pr show ?thesis
        by (auto simp: store_inv_def dom_results_def Let_def)
    qed
  qed
qed

lemma store_inv_synthesis_done:
  assumes "store_inv R s"
  shows "store_inv R (synthesis_done r out now s)"
proof (cases "r \<in> set (tasks s)")
  case False
  with assms show ?thesis by (simp add: synthesis_done_def)
next
  case True
  have sub: "set (remove1 r (tasks s)) \<subseteq> set (tasks s)" by (rule set_remove1_subset)
  show ?thesis
  proof (cases out)
    case (Inl e)
    with True assms sub show ?thesis
      by (auto simp: store_inv_def synthesis_done_def Let_def split: option.splits)
  next
    case (Inr a)
    with True assms sub show ?thesis
      by (auto simp: store_inv_def synthesis_done_def Let_def split: option.splits)
  qed
qed

lemma store_inv_run_timers:
  assumes "store_inv R s"
  shows "store_inv R (run_timers now s)"
  using assms by (auto simp: store_inv_def run_timers_def)

lemma store_inv_run:
  assumes "distinct (registered evs)"
  shows "store_inv (set (registered evs)) (run evs empty_server)"
  using assms
proof (induction evs rule: rev_induct)
  case Nil
  then show ?case by (simp add: store_inv_empty)
next
  case (snoc ev evs)
  then have IH: "store_inv (set (registered evs)) (run evs empty_server)"
    by (simp add: registered_append)
  show ?case
  proof (cases ev)
    case (Register l now)
    with snoc.prems have "l_requestId l \<notin> set (registered evs)"
      by (simp add: registered_append)
    from store_inv_register [OF IH this] Register show ?thesis
      by (simp add: registered_append)
  next
    case (Poll u r)
    with IH show ?thesis by (simp add: registered_append get_ask_def split: option.splits)
  next
    case (PollStatus u r)
    with IH show ?thesis by (simp add: registered_append get_ask_status_def split: option.splits)
  next
    case (Submit u r src sn)
    with store_inv_dom_results [OF IH] show ?thesis by (simp add: registered_append)
  next
    case (SynthesisDone r out now)
    with store_inv_synthesis_done [OF IH] show ?thesis by (simp add: registered_append)
  next
    case (Timers now)
    with store_inv_run_timers [OF IH] show ?thesis by (simp add: registered_append)
  qed
qed

text \<open>No event other than a new registration under the same id moves a status back.\<close>

lemma stage_step:
  assumes inv: "store_inv R s"
    and p: "pendingSearches s rid = Some p"
    and p': "pendingSearches (apply_event ev s) rid = Some p'"
    and nr: "\<forall>l now. ev = Register l now \<longrightarrow> l_requestId l \<noteq> rid"
  shows "stage (status p) \<le> stage (status p')"
proof -
  from inv p have pr: "status p \<noteq> Processing"
      "status p = Complete \<or> status p = Failed \<longrightarrow> allSourcesComplete p"
    by (auto simp: store_inv_def)
  from apply_event_entry [OF p'] nr p show ?thesis
  proof (elim disjE exE conjE)
    fix q u src sn
    assume q: "pendingSearches s rid = Some q"
      and st: "let stored = q\<lparr>results := (results q)(src \<mapsto> normalizedResults src sn)\<rparr>
               in if allSourcesComplete stored then p' = stored
                  else p' = stored\<lparr>status := Partial\<rparr>"
    from q p have [simp]: "q = p" by simp
    show ?thesis
    proof (cases "allSourcesComplete (p\<lparr>results := (results p)(src \<mapsto> normalizedResults src sn)\<rparr>)")
      case True
      with st show ?thesis by (simp add: Let_def)
    next
      case False
      then have "\<not> allSourcesComplete p" using allSourcesComplete_upd by blast
      with pr have "stage (status p) \<le> 1" by (cases "status p") auto
      with False st show ?thesis by (simp add: Let_def)
    qed
  next
    fix q a now
    assume "p' = q\<lparr>answer := Some a, status := Complete\<rparr>"
    then show ?thesis by (cases "status p") auto
  next
    fix q e now
    assume "p' = q\<lparr>status := Failed\<rparr>"
    then show ?thesis by (cases "status p") auto
  qed auto
qed

section \<open>Keys of the results map\<close>

text \<open>
  Claim C2, as the code has it.  For the entry stored under a request id after any
  history of the store, \<open>results\<close> always has the keys \<open>gmail\<close> and \<open>calendar\<close>, which
  registration writes whether or not they are needed, and beyond these only sources that
  were named in submissions for that request.  The needed sources play no part in which
  keys are there.
\<close>

theorem results_keys_of_reachable_entry:
  assumes "pendingSearches (run evs empty_server) rid = Some p"
  shows "{''gmail'', ''calendar''} \<subseteq> dom (results p) \<and>
         dom (results p) \<subseteq> {''gmail'', ''calendar''} \<union> set (submit_sources rid evs)"
  using assms
proof (induction evs arbitrary: p rule: rev_induct)
  case Nil
  then show ?case by (simp add: empty_server_def)
next
  case (snoc ev evs)
  from snoc.prems have st: "pendingSearches (apply_event ev (run evs empty_server)) rid = Some p"
    by simp
  from apply_event_entry [OF st] show ?case
  proof (elim disjE exE conjE)
    fix l now assume "p = new_pendingSearch l now"
    then show ?thesis by (simp add: dom_new_pendingSearch)
  next
    fix q assume q: "pendingSearches (run evs empty_server) rid = Some q" and "p = q"
    with snoc.IH [OF q] show ?thesis by (auto simp: submit_sources_append)
  next
    fix q u src sn
    assume q: "pendingSearches (run evs empty_server) rid = Some q"
      and ev: "ev = Submit u rid src sn"
      and p: "let stored = q\<lparr>results := (results q)(src \<mapsto> normalizedResults src sn)\<rparr>
              in if allSourcesComplete stored then p = stored
                 else p = stored\<lparr>status := Partial\<rparr>"
    from p have "results p = (results q)(src \<mapsto> normalizedResults src sn)"
      by (auto simp: Let_def split: if_splits)
    with snoc.IH [OF q] ev show ?thesis
      by (simp add: submit_sources_append subset_iff dom_def)
  next
    fix q a now
    assume q: "pendingSearches (run evs empty_server) rid = Some q"
      and "p = q\<lparr>answer := Some a, status := Complete\<rparr>"
    with snoc.IH [OF q] show ?thesis by (auto simp: submit_sources_append)
  next
    fix q e now
    assume q: "pendingSearches (run evs empty_server) rid = Some q"
      and "p = q\<lparr>status := Failed\<rparr>"
    with snoc.IH [OF q] show ?thesis by (auto simp: submit_sources_append)
  qed
qed

lemma ex_bogus_entry:
  "pendingSearches
     (run [Register ex_locals 1000, Submit ''alice'' ''r1'' ''bogus'' [''x'']] empty_server) ''r1''
   = Some ((new_pendingSearch ex_locals 1000)
       \<lparr>results := (results (new_pendingSearch ex_locals 1000))
                     (''bogus'' \<mapsto> normalizedResults ''bogus'' [''x'']),
        status := Partial\<rparr>)"
  by (simp add: run_def ex_defs handler_defs Let_def)

theorem results_keys_of_reachable_entry_witness:
  "{''gmail'', ''calendar''}
     \<subseteq> dom ((results (new_pendingSearch ex_locals 1000))
                (''bogus'' \<mapsto> normalizedResults ''bogus'' [''x''])) \<and>
   dom ((results (new_pendingSearch ex_locals 1000))
          (''bogus'' \<mapsto> normalizedResults ''bogus'' [''x'']))
     \<subseteq> {''gmail'', ''calendar'', ''bogus''}"
  using results_keys_of_reachable_entry [OF ex_bogus_entry] by auto

text \<open>
  The claim as worded fails on the example request, whose needed sources are \<open>gmail\<close>
  and \<open>linkedin\<close>: right after the handler registered it, \<open>results\<close> has the key
  \<open>calendar\<close>; and a submission by the owner for the source \<open>bogus\<close> is stored under
  that key.
\<close>

theorem results_keys_outside_sources_needed:
  "stored_sources_needed (snd (snd (ask ex_env ex_world empty_server))) ''r1''
     = Some [''gmail'', ''linkedin''] \<and>
   stored_results (snd (snd (ask ex_env ex_world empty_server))) ''r1'' ''calendar'' = Some [] \<and>
   stored_sources_needed
     (snd (dom_results ''alice'' ''r1'' ''bogus'' [''x'']
        (snd (snd (ask ex_env ex_world empty_server))))) ''r1''
     = Some [''gmail'', ''linkedin''] \<and>
   stored_results
     (snd (dom_results ''alice'' ''r1'' ''bogus'' [''x'']
        (snd (snd (ask ex_env ex_world empty_server))))) ''r1'' ''bogus''
     = Some (normalizedResults ''bogus'' [''x''])"
  unfolding ask_ex snd_conv
  by (simp add: ex_defs handler_defs store_obs_defs Let_def)

section \<open>The status over time\<close>

text \<open>
  Claim C3, as the code has it.  Take any history in which each registration draws a new
  request id, and an entry that is stored at some point of it and still stored at a later
  point.  Its status has not moved back along \<open>pending\<close>, \<open>partial\<close>, then \<open>complete\<close>
  or \<open>failed\<close>, the last two counting as one level (they can replace each other);
  whenever the status is \<open>complete\<close> the answer is set; and the submission handler
  itself never changes the answer.
\<close>

theorem status_never_moves_back:
  assumes "distinct (registered (evs1 @ evs2))"
    and "pendingSearches (run evs1 empty_server) rid = Some p1"
    and "pendingSearches (run (evs1 @ evs2) empty_server) rid = Some p2"
  shows "stage (status p1) \<le> stage (status p2) \<and>
         (status p2 = Complete \<longrightarrow> answer p2 \<noteq> None) \<and>
         stored_answer (snd (dom_results u rid src sn (run evs1 empty_server))) rid = answer p1"
proof -
  from assms(1) have d1: "distinct (registered evs1)" by (simp add: registered_append)
  from store_inv_run [OF d1] assms(2) have reg: "rid \<in> set (registered evs1)"
    by (auto simp: store_inv_def)
  have mono: "stage (status p1) \<le> stage (status p2)"
    using assms(1,3)
  proof (induction evs2 arbitrary: p2 rule: rev_induct)
    case Nil
    with assms(2) show ?case by simp
  next
    case (snoc ev evs2)
    let ?s = "run (evs1 @ evs2) empty_server"
    from snoc.prems(1) have d: "distinct (registered (evs1 @ evs2))"
      by (auto simp: registered_append)
    from snoc.prems(2) have st: "pendingSearches (apply_event ev ?s) rid = Some p2"
      by (simp flip: append_assoc)
    have nr: "\<forall>l now. ev = Register l now \<longrightarrow> l_requestId l \<noteq> rid"
      using snoc.prems(1) reg by (auto simp: registered_append)
    from apply_event_entry [OF st] nr obtain q where q: "pendingSearches ?s rid = Some q"
      by blast
    from snoc.IH [OF d q] have "stage (status p1) \<le> stage (status q)" .
    also from stage_step [OF store_inv_run [OF d] q st nr]
    have "stage (status q) \<le> stage (status p2)" .
    finally show ?case .
  qed
  from store_inv_run [OF assms(1)] assms(3)
  have ans: "status p2 = Complete \<longrightarrow> answer p2 \<noteq> None"
    by (auto simp: store_inv_def)
  have "stored_answer (snd (dom_results u rid src sn (run evs1 empty_server))) rid = answer p1"
    using assms(2) by (simp add: stored_answer_def dom_results_def Let_def)
  with mono ans show ?thesis by blast
qed

lemma ex_complete_entry:
  "pendingSearches
     (run ([Register ex_locals 1000, Submit ''alice'' ''r1'' ''whatsapp'' [''w'']] @
           [Submit ''alice'' ''r1'' ''linkedin'' [''x''],
            SynthesisDone ''r1'' (Inr (Answer ''first'')) 2000]) empty_server) ''r1''
   = Some ((new_pendingSearch ex_locals 1000)
       \<lparr>results := (results (new_pendingSearch ex_locals 1000))
                     (''whatsapp'' \<mapsto> normalizedResults ''whatsapp'' [''w''],
                      ''linkedin'' \<mapsto> normalizedResults ''linkedin'' [''x'']),
        status := Complete, answer := Some (Answer ''first'')\<rparr>)"
  by (simp add: run_def ex_defs handler_defs Let_def)

theorem status_never_moves_back_witness:
  "stored_status
     (run [Register ex_locals 1000, Submit ''alice'' ''r1'' ''whatsapp'' [''w'']] empty_server)
     ''r1'' = Some Partial \<and>
   stored_status
     (run ([Register ex_locals 1000, Submit ''alice'' ''r1'' ''whatsapp'' [''w'']] @
           [Submit ''alice'' ''r1'' ''linkedin'' [''x''],
            SynthesisDone ''r1'' (Inr (Answer ''first'')) 2000]) empty_server)
     ''r1'' = Some Complete \<and>
   stored_answer
     (run ([Register ex_locals 1000, Submit ''alice'' ''r1'' ''whatsapp'' [''w'']] @
           [Submit ''alice'' ''r1'' ''linkedin'' [''x''],
            SynthesisDone ''r1'' (Inr (Answer ''first'')) 2000]) empty_server)
     ''r1'' = Some (Answer ''first'') \<and>
   stage Partial \<le> stage Complete \<and>
   stored_answer
     (snd (dom_results ''alice'' ''r1'' ''linkedin'' [''y'']
        (run [Register ex_locals 1000, Submit ''alice'' ''r1'' ''whatsapp'' [''w'']]
           empty_server))) ''r1'' = None"
proof -
  have d: "distinct (registered
             ([Register ex_locals 1000, Submit ''alice'' ''r1'' ''whatsapp'' [''w'']] @
              [Submit ''alice'' ''r1'' ''linkedin'' [''x''],
               SynthesisDone ''r1'' (Inr (Answer ''first'')) 2000]))"
    by simp
  have p1: "pendingSearches
              (run [Register ex_locals 1000, Submit ''alice'' ''r1'' ''whatsapp'' [''w'']]
                 empty_server) ''r1''
            = Some ((new_pendingSearch ex_locals 1000)
                \<lparr>results := (results (new_pendingSearch ex_locals 1000))
                              (''whatsapp'' \<mapsto> normalizedResults ''whatsapp'' [''w'']),
                 status := Partial\<rparr>)"
    by (simp add: run_def ex_defs handler_defs Let_def)
  from status_never_moves_back [OF d p1 ex_complete_entry, of "''alice''" "''linkedin''" "[''y'']"]
    p1 ex_complete_entry
  show ?thesis
    by (simp add: stored_status_def stored_answer_def new_pendingSearch_def)
qed

text \<open>
  The claim as worded fails on the example request.  Once it is \<open>complete\<close> with a first
  answer, a further submission by the owner starts another synthesis: when that one
  succeeds the answer is replaced, when it fails the status goes from \<open>complete\<close> to
  \<open>failed\<close>.  A \<open>failed\<close> status is reached while the stored status is \<open>pending\<close>, and
  it turns into \<open>complete\<close> when a later synthesis succeeds.
\<close>

theorem final_status_and_answer_overwritten:
  "stored_status
     (run [Register ex_locals 1000, Submit ''alice'' ''r1'' ''linkedin'' [''x''],
           SynthesisDone ''r1'' (Inr (Answer ''first'')) 2000] empty_server) ''r1''
     = Some Complete \<and>
   stored_answer
     (run [Register ex_locals 1000, Submit ''alice'' ''r1'' ''linkedin'' [''x''],
           SynthesisDone ''r1'' (Inr (Answer ''first'')) 2000] empty_server) ''r1''
     = Some (Answer ''first'') \<and>
   stored_answer
     (run [Register ex_locals 1000, Submit ''alice'' ''r1'' ''linkedin'' [''x''],
           SynthesisDone ''r1'' (Inr (Answer ''first'')) 2000,
           Submit ''alice'' ''r1'' ''linkedin'' [''y''],
           SynthesisDone ''r1'' (Inr (Answer ''second'')) 3000] empty_server) ''r1''
     = Some (Answer ''second'') \<and>
   stored_status
     (run [Register ex_locals 1000, Submit ''alice'' ''r1'' ''linkedin'' [''x''],
           SynthesisDone ''r1'' (Inr (Answer ''first'')) 2000,
           Submit ''alice'' ''r1'' ''linkedin'' [''y''],
           SynthesisDone ''r1'' (Inl ''synthesis failed'') 3000] empty_server) ''r1''
     = Some Failed \<and>
   stored_status
     (run [Register ex_locals 1000, Submit ''alice'' ''r1'' ''linkedin'' [''x'']]
        empty_server) ''r1''
     = Some Pending \<and>
   stored_status
     (run [Register ex_locals 1000, Submit ''alice'' ''r1'' ''linkedin'' [''x''],
           SynthesisDone ''r1'' (Inl ''synthesis failed'') 2000] empty_server) ''r1''
     = Some Failed \<and>
   stored_status
     (run [Register ex_locals 1000, Submit ''alice'' ''r1'' ''linkedin'' [''x''],
           SynthesisDone ''r1'' (Inl ''synthesis failed'') 2000,
           Submit ''alice'' ''r1'' ''linkedin'' [''y''],
           SynthesisDone ''r1'' (Inr (Answer ''second'')) 3000] empty_server) ''r1''
     = Some Complete"
  by (simp add: run_def ex_defs handler_defs store_obs_defs Let_def)

section \<open>Expiry\<close>




section \<open>The fetch steps of \<open>POST /ask\<close>\<close>

text \<open>A token refresh is logged once and touches neither provider log.\<close>

lemma refreshAndUpdateToken_logs:
  assumes "refreshAndUpdateToken env rt w = (r, w2)"
  shows "refresh_calls w2 = refresh_calls w @ [rt] \<and> gmail_calls w2 = gmail_calls w \<and>
         calendar_calls w2 = calendar_calls w"
  using assms
  by (auto simp: refreshAndUpdateToken_def Let_def split: sum.splits option.splits if_splits)

lemma refreshAndUpdateToken_logs':
  "refresh_calls (snd (refreshAndUpdateToken env rt w)) = refresh_calls w @ [rt] \<and>
   gmail_calls (snd (refreshAndUpdateToken env rt w)) = gmail_calls w \<and>
   calendar_calls (snd (refreshAndUpdateToken env rt w)) = calendar_calls w"
  using refreshAndUpdateToken_logs [of env rt w] by (cases "refreshAndUpdateToken env rt w") simp

text \<open>The calendar step, case by case, read off the logs and the collected hits.\<close>

lemma fetch_calendar_cases:
  assumes "needsCalendar (l_analysis l)"
  shows "(let first = getCalendarEvents env (length (calendar_calls w)) (l_accessToken l);
              refresh = fst (refreshAndUpdateToken env rt
                               (w\<lparr>calendar_calls := calendar_calls w @ [l_accessToken l]\<rparr>));
              l' = fst (fetch_calendar env rt (l, w));
              w' = snd (fetch_calendar env rt (l, w))
          in case first of
               Inr events \<Rightarrow>
                 refresh_calls w' = refresh_calls w \<and>
                 calendar_calls w' = calendar_calls w @ [l_accessToken l] \<and>
                 l_results l' = l_results l @ normalizeCalendarResults env events
             | Inl error \<Rightarrow>
                 if isUnauthorized error then
                   refresh_calls w' = refresh_calls w @ [rt] \<and>
                   (case refresh of
                      Inl refreshError \<Rightarrow>
                        calendar_calls w' = calendar_calls w @ [l_accessToken l] \<and>
                        l_results l' = l_results l
                    | Inr tok \<Rightarrow>
                        calendar_calls w' = calendar_calls w @ [l_accessToken l, tok] \<and>
                        l_results l' = l_results l @
                          (case getCalendarEvents env (Suc (length (calendar_calls w))) tok of
                             Inl retryError \<Rightarrow> []
                           | Inr events \<Rightarrow> normalizeCalendarResults env events))
                 else
                   refresh_calls w' = refresh_calls w \<and>
                   calendar_calls w' = calendar_calls w @ [l_accessToken l] \<and>
                   l_results l' = l_results l)"
proof (cases "getCalendarEvents env (length (calendar_calls w)) (l_accessToken l)")
  case (Inr events)
  with assms show ?thesis
    by (simp add: fetch_calendar_def retryOn401_def call_getCalendarEvents_def Let_def)
next
  case (Inl error)
  let ?w1 = "w\<lparr>calendar_calls := calendar_calls w @ [l_accessToken l]\<rparr>"
  show ?thesis
  proof (cases "isUnauthorized error")
    case False
    with Inl assms show ?thesis
      by (simp add: fetch_calendar_def retryOn401_def call_getCalendarEvents_def Let_def)
  next
    case True
    obtain r w2 where rw: "refreshAndUpdateToken env rt ?w1 = (r, w2)"
      by (cases "refreshAndUpdateToken env rt ?w1")
    from refreshAndUpdateToken_logs [OF rw]
    have lg: "refresh_calls w2 = refresh_calls w @ [rt]"
        "calendar_calls w2 = calendar_calls w @ [l_accessToken l]"
      by simp_all
    show ?thesis
    proof (cases r)
      case e: (Inl refreshError)
      with Inl True assms rw lg show ?thesis
        by (simp add: fetch_calendar_def retryOn401_def call_getCalendarEvents_def Let_def)
    next
      case t: (Inr tok)
      with Inl True assms rw lg show ?thesis
        by (cases "getCalendarEvents env (Suc (length (calendar_calls w))) tok")
           (simp_all add: fetch_calendar_def retryOn401_def call_getCalendarEvents_def Let_def)
    qed
  qed
qed

text \<open>The Gmail step, once the query is planned.\<close>

lemma fetch_gmail_cases:
  assumes "needsGmail (l_analysis l)" and "planGmailQuery env = Inr plan"
  shows "(let maxResults = (if intent plan = ''summary'' \<or> intent plan = ''count''
                            then 20 else 10);
              first = searchGmail env (length (gmail_calls w)) (l_accessToken l)
                        (gmailQuery plan) maxResults;
              refresh = fst (refreshAndUpdateToken env rt
                               (w\<lparr>gmail_calls := gmail_calls w @ [l_accessToken l]\<rparr>));
              l' = fst (fetch_gmail env rt (l, w));
              w' = snd (fetch_gmail env rt (l, w))
          in case first of
               Inr messages \<Rightarrow>
                 refresh_calls w' = refresh_calls w \<and>
                 gmail_calls w' = gmail_calls w @ [l_accessToken l] \<and>
                 l_results l' = l_results l @ normalizeGmailResults env messages
             | Inl error \<Rightarrow>
                 if isUnauthorized error then
                   refresh_calls w' = refresh_calls w @ [rt] \<and>
                   (case refresh of
                      Inl refreshError \<Rightarrow>
                        gmail_calls w' = gmail_calls w @ [l_accessToken l] \<and>
                        l_results l' = l_results l
                    | Inr tok \<Rightarrow>
                        gmail_calls w' = gmail_calls w @ [l_accessToken l, tok] \<and>
                        l_results l' = l_results l @
                          (case searchGmail env (Suc (length (gmail_calls w))) tok
                                  (gmailQuery plan) maxResults of
                             Inl retryError \<Rightarrow> []
                           | Inr messages \<Rightarrow> normalizeGmailResults env messages))
                 else
                   refresh_calls w' = refresh_calls w \<and>
                   gmail_calls w' = gmail_calls w @ [l_accessToken l] \<and>
                   l_results l' = l_results l)"
proof -
  define m :: nat where "m = (if intent plan = ''summary'' \<or> intent plan = ''count'' then 20 else 10)"
  show ?thesis
  proof (cases "searchGmail env (length (gmail_calls w)) (l_accessToken l) (gmailQuery plan) m")
    case (Inr messages)
    with assms show ?thesis
      by (simp add: fetch_gmail_def retryOn401_def call_searchGmail_def Let_def m_def)
  next
    case (Inl error)
    let ?w1 = "w\<lparr>gmail_calls := gmail_calls w @ [l_accessToken l]\<rparr>"
    show ?thesis
    proof (cases "isUnauthorized error")
      case False
      with Inl assms show ?thesis
        by (simp add: fetch_gmail_def retryOn401_def call_searchGmail_def Let_def m_def)
    next
      case True
      obtain r w2 where rw: "refreshAndUpdateToken env rt ?w1 = (r, w2)"
        by (cases "refreshAndUpdateToken env rt ?w1")
      from refreshAndUpdateToken_logs [OF rw]
      have lg: "refresh_calls w2 = refresh_calls w @ [rt]"
          "gmail_calls w2 = gmail_calls w @ [l_accessToken l]"
        by simp_all
      show ?thesis
      proof (cases r)
        case e: (Inl refreshError)
        with Inl True assms rw lg show ?thesis
          by (simp add: fetch_gmail_def retryOn401_def call_searchGmail_def Let_def m_def)
      next
        case t: (Inr tok)
        with Inl True assms rw lg show ?thesis
          by (cases "searchGmail env (Suc (length (gmail_calls w))) tok (gmailQuery plan) m")
             (simp_all add: fetch_gmail_def retryOn401_def call_searchGmail_def Let_def m_def)
      qed
    qed
  qed
qed

text \<open>Once flags and analysis are there, only the synthesizer can make the request fail.\<close>

lemma ask_process_error:
  assumes "getFeatureFlags env = Inr ff" and "analyzeQuery env = Inr raw"
    and "is_error (fst (ask_process env q rt tok w s))"
  shows "\<not> needsExtension ff (filterAnalysisByFlags env raw ff) \<and>
         (\<exists>hits e. synthesizeAnswer env q hits = Inl e)"
proof -
  have q: "l_query (add_whatsapp (add_linkedin l)) = l_query l" for l
    by (simp add: add_whatsapp_def add_linkedin_def split: option.splits)
  have g: "l_query (fst (fetch_gmail env rt (l, w))) = l_query l" for l w
    by (simp add: fetch_gmail_def Let_def split: sum.splits prod.splits)
  have c: "l_query (fst (fetch_calendar env rt lw)) = l_query (fst lw)" for lw
    by (cases lw) (simp add: fetch_calendar_def Let_def split: sum.splits prod.splits)
  obtain l2 w2 where f: "fetch_calendar env rt
      (fetch_gmail env rt (initial_locals env q (filterAnalysisByFlags env raw ff) tok, w)) = (l2, w2)"
    by (cases "fetch_calendar env rt
      (fetch_gmail env rt (initial_locals env q (filterAnalysisByFlags env raw ff) tok, w))")
  have "l_query l2 = q"
    using c [of "fetch_gmail env rt (initial_locals env q (filterAnalysisByFlags env raw ff) tok, w)"]
      g [of "initial_locals env q (filterAnalysisByFlags env raw ff) tok" w] f
    by (simp add: initial_locals_def)
  with assms f show ?thesis
    by (auto simp: ask_process_def Let_def register_pending_def sync_reply_def q
          split: if_splits sum.splits prod.splits)
qed

lemmas ask_defs = ask_def check_token_def needsRefresh_def ask_process_def
  initial_locals_def fetch_gmail_def fetch_calendar_def retryOn401_def
  call_searchGmail_def call_getCalendarEvents_def add_linkedin_def add_whatsapp_def
  needsExtension_def sync_reply_def processing_failed_def refreshAndUpdateToken_def
  isUnauthorized_def no_access_token_error_def

lemmas ex_env_defs = ex_env_401_def ex_env_def ex_world_def ex_analysis_def ex_plan_def
  ex_hit_def err401_def

section \<open>Retry once on 401\<close>

text \<open>
  Claim C4.  For the Gmail step (once the query is planned) and for the Calendar step:
  when the first call succeeds there is no refresh and no second call; when it throws an
  error that the 401 check accepts, the refresh token is sent exactly once, and if a new
  token comes back the provider is called exactly once more, with that token, while if
  the refresh itself throws there is no second call; when it throws any other error
  there is no refresh and no second call.  In every failing case, a failed second call
  included, the step adds no hits and the handler goes on.  After flags and analysis are
  read, the handler replies with an error only if the synchronous path is taken and the
  synthesizer throws; no outcome of a fetch makes the request fail.
\<close>

theorem retry_once_on_unauthorized:
  assumes "needsGmail (l_analysis lg)" and "planGmailQuery env = Inr plan"
    and "needsCalendar (l_analysis lc)"
    and "getFeatureFlags env = Inr ff" and "analyzeQuery env = Inr raw"
  shows
   "(let maxResults = (if intent plan = ''summary'' \<or> intent plan = ''count''
                       then 20 else 10);
         first = searchGmail env (length (gmail_calls wg)) (l_accessToken lg)
                   (gmailQuery plan) maxResults;
         refresh = fst (refreshAndUpdateToken env rt
                          (wg\<lparr>gmail_calls := gmail_calls wg @ [l_accessToken lg]\<rparr>));
         l' = fst (fetch_gmail env rt (lg, wg));
         w' = snd (fetch_gmail env rt (lg, wg))
     in case first of
          Inr messages \<Rightarrow>
            refresh_calls w' = refresh_calls wg \<and>
            gmail_calls w' = gmail_calls wg @ [l_accessToken lg] \<and>
            l_results l' = l_results lg @ normalizeGmailResults env messages
        | Inl error \<Rightarrow>
            if isUnauthorized error then
              refresh_calls w' = refresh_calls wg @ [rt] \<and>
              (case refresh of
                 Inl refreshError \<Rightarrow>
                   gmail_calls w' = gmail_calls wg @ [l_accessToken lg] \<and>
                   l_results l' = l_results lg
               | Inr tok \<Rightarrow>
                   gmail_calls w' = gmail_calls wg @ [l_accessToken lg, tok] \<and>
                   l_results l' = l_results lg @
                     (case searchGmail env (Suc (length (gmail_calls wg))) tok
                             (gmailQuery plan) maxResults of
                        Inl retryError \<Rightarrow> []
                      | Inr messages \<Rightarrow> normalizeGmailResults env messages))
            else
              refresh_calls w' = refresh_calls wg \<and>
              gmail_calls w' = gmail_calls wg @ [l_accessToken lg] \<and>
              l_results l' = l_results lg) \<and>
    (let first = getCalendarEvents env (length (calendar_calls wc)) (l_accessToken lc);
         refresh = fst (refreshAndUpdateToken env rt
                          (wc\<lparr>calendar_calls := calendar_calls wc @ [l_accessToken lc]\<rparr>));
         l' = fst (fetch_calendar env rt (lc, wc));
         w' = snd (fetch_calendar env rt (lc, wc))
     in case first of
          Inr events \<Rightarrow>
            refresh_calls w' = refresh_calls wc \<and>
            calendar_calls w' = calendar_calls wc @ [l_accessToken lc] \<and>
            l_results l' = l_results lc @ normalizeCalendarResults env events
        | Inl error \<Rightarrow>
            if isUnauthorized error then
              refresh_calls w' = refresh_calls wc @ [rt] \<and>
              (case refresh of
                 Inl refreshError \<Rightarrow>
                   calendar_calls w' = calendar_calls wc @ [l_accessToken lc] \<and>
                   l_results l' = l_results lc
               | Inr tok \<Rightarrow>
                   calendar_calls w' = calendar_calls wc @ [l_accessToken lc, tok] \<and>
                   l_results l' = l_results lc @
                     (case getCalendarEvents env (Suc (length (calendar_calls wc))) tok of
                        Inl retryError \<Rightarrow> []
                      | Inr events \<Rightarrow> normalizeCalendarResults env events))
            else
              refresh_calls w' = refresh_calls wc \<and>
              calendar_calls w' = calendar_calls wc @ [l_accessToken lc] \<and>
              l_results l' = l_results lc) \<and>
    (is_error (fst (ask_process env q rt tok0 w s)) \<longrightarrow>
       \<not> needsExtension ff (filterAnalysisByFlags env raw ff) \<and>
       (\<exists>hits e. synthesizeAnswer env q hits = Inl e))"
  using fetch_gmail_cases [OF assms(1,2), of wg rt] fetch_calendar_cases [OF assms(3), of env wc rt]
    ask_process_error [OF assms(4,5), of q rt tok0 w s]
  by blast

theorem retry_once_on_unauthorized_witness:
  "refresh_calls (snd (fetch_gmail ex_env_401 ''rt''
      (initial_locals ex_env_401 ''q'' (ex_analysis\<lparr>needsCalendar := True\<rparr>) ''t0'', ex_world)))
     = [''rt''] \<and>
   gmail_calls (snd (fetch_gmail ex_env_401 ''rt''
      (initial_locals ex_env_401 ''q'' (ex_analysis\<lparr>needsCalendar := True\<rparr>) ''t0'', ex_world)))
     = [''t0'', ''t1''] \<and>
   l_results (fst (fetch_gmail ex_env_401 ''rt''
      (initial_locals ex_env_401 ''q'' (ex_analysis\<lparr>needsCalendar := True\<rparr>) ''t0'', ex_world)))
     = [ex_hit ''gmail'' ''mail-1''] \<and>
   refresh_calls (snd (fetch_calendar ex_env_401 ''rt''
      (initial_locals ex_env_401 ''q'' (ex_analysis\<lparr>needsCalendar := True\<rparr>) ''t0'', ex_world)))
     = [''rt''] \<and>
   calendar_calls (snd (fetch_calendar ex_env_401 ''rt''
      (initial_locals ex_env_401 ''q'' (ex_analysis\<lparr>needsCalendar := True\<rparr>) ''t0'', ex_world)))
     = [''t0'', ''t1''] \<and>
   l_results (fst (fetch_calendar ex_env_401 ''rt''
      (initial_locals ex_env_401 ''q'' (ex_analysis\<lparr>needsCalendar := True\<rparr>) ''t0'', ex_world)))
     = [] \<and>
   \<not> is_error (fst (ask_process ex_env_401 ''q'' ''rt'' ''t0'' ex_world empty_server)) \<and>
   is_error (fst (ask_process (ex_env_401\<lparr>synthesizeAnswer := (\<lambda>q hits. Inl err401)\<rparr>)
                    ''q'' ''rt'' ''t0'' ex_world empty_server)) \<and>
   \<not> needsExtension \<lparr>enableAsyncMode = True\<rparr>
        (ex_analysis\<lparr>needsCalendar := True, needsLinkedIn := False\<rparr>)"
proof -
  let ?l = "initial_locals ex_env_401 ''q'' (ex_analysis\<lparr>needsCalendar := True\<rparr>) ''t0''"
  let ?env2 = "ex_env_401\<lparr>synthesizeAnswer := (\<lambda>q hits. Inl err401)\<rparr>"
  have g: "needsGmail (l_analysis ?l)" and c: "needsCalendar (l_analysis ?l)"
    by (simp_all add: initial_locals_def ex_analysis_def)
  have p: "planGmailQuery ex_env_401 = Inr ex_plan"
    by (simp add: ex_env_401_def ex_env_def)
  have f: "getFeatureFlags ex_env_401 = Inr \<lparr>enableAsyncMode = True\<rparr>"
    by (simp add: ex_env_401_def ex_env_def)
  have a: "analyzeQuery ex_env_401
             = Inr (ex_analysis\<lparr>needsCalendar := True, needsLinkedIn := False\<rparr>)"
    by (simp add: ex_env_401_def ex_env_def)
  have s: "\<nexists>hits e. synthesizeAnswer ex_env_401 ''q'' hits = Inl e"
    by (simp add: ex_env_401_def ex_env_def)
  from retry_once_on_unauthorized [OF g p c f a, of ex_world "''rt''" ex_world
      "''q''" "''t0''" ex_world empty_server] s
  have first: "refresh_calls (snd (fetch_gmail ex_env_401 ''rt'' (?l, ex_world))) = [''rt''] \<and>
     gmail_calls (snd (fetch_gmail ex_env_401 ''rt'' (?l, ex_world))) = [''t0'', ''t1''] \<and>
     l_results (fst (fetch_gmail ex_env_401 ''rt'' (?l, ex_world))) = [ex_hit ''gmail'' ''mail-1''] \<and>
     refresh_calls (snd (fetch_calendar ex_env_401 ''rt'' (?l, ex_world))) = [''rt''] \<and>
     calendar_calls (snd (fetch_calendar ex_env_401 ''rt'' (?l, ex_world))) = [''t0'', ''t1''] \<and>
     l_results (fst (fetch_calendar ex_env_401 ''rt'' (?l, ex_world))) = [] \<and>
     \<not> is_error (fst (ask_process ex_env_401 ''q'' ''rt'' ''t0'' ex_world empty_server))"
    by (simp add: ex_env_defs initial_locals_def refreshAndUpdateToken_def isUnauthorized_def
          Let_def)
  have g2: "planGmailQuery ?env2 = Inr ex_plan"
    and f2: "getFeatureFlags ?env2 = Inr \<lparr>enableAsyncMode = True\<rparr>"
    and a2: "analyzeQuery ?env2
               = Inr (ex_analysis\<lparr>needsCalendar := True, needsLinkedIn := False\<rparr>)"
    and fl: "filterAnalysisByFlags ?env2
               (ex_analysis\<lparr>needsCalendar := True, needsLinkedIn := False\<rparr>)
               \<lparr>enableAsyncMode = True\<rparr>
             = ex_analysis\<lparr>needsCalendar := True, needsLinkedIn := False\<rparr>"
    by (simp_all add: ex_env_401_def ex_env_def)
  have e2: "is_error (fst (ask_process ?env2 ''q'' ''rt'' ''t0'' ex_world empty_server))"
    by (simp add: ask_defs ex_env_defs Let_def)
  from retry_once_on_unauthorized [OF g g2 c f2 a2, of ex_world "''rt''" ex_world
      "''q''" "''t0''" ex_world empty_server] e2
  have "\<not> needsExtension \<lparr>enableAsyncMode = True\<rparr>
          (ex_analysis\<lparr>needsCalendar := True, needsLinkedIn := False\<rparr>)"
    unfolding fl by blast
  with first e2 show ?thesis by blast
qed

text \<open>What the two fetch steps and the instruction step leave alone.\<close>

lemma fetch_gmail_frame:
  "l_query (fst (fetch_gmail env rt (l, w))) = l_query l \<and>
   l_requestId (fst (fetch_gmail env rt (l, w))) = l_requestId l \<and>
   l_userId (fst (fetch_gmail env rt (l, w))) = l_userId l \<and>
   l_conversationId (fst (fetch_gmail env rt (l, w))) = l_conversationId l \<and>
   l_analysis (fst (fetch_gmail env rt (l, w))) = l_analysis l \<and>
   l_domInstructions (fst (fetch_gmail env rt (l, w))) = l_domInstructions l \<and>
   l_sourcesNeeded (fst (fetch_gmail env rt (l, w)))
     = l_sourcesNeeded l @ (if needsGmail (l_analysis l) then [''gmail''] else [])"
  by (simp add: fetch_gmail_def Let_def split: sum.splits prod.splits)

lemma fetch_calendar_frame:
  "l_query (fst (fetch_calendar env rt (l, w))) = l_query l \<and>
   l_requestId (fst (fetch_calendar env rt (l, w))) = l_requestId l \<and>
   l_userId (fst (fetch_calendar env rt (l, w))) = l_userId l \<and>
   l_conversationId (fst (fetch_calendar env rt (l, w))) = l_conversationId l \<and>
   l_analysis (fst (fetch_calendar env rt (l, w))) = l_analysis l \<and>
   l_domInstructions (fst (fetch_calendar env rt (l, w))) = l_domInstructions l \<and>
   l_sourcesNeeded (fst (fetch_calendar env rt (l, w)))
     = l_sourcesNeeded l @ (if needsCalendar (l_analysis l) then [''calendar''] else [])"
  by (simp add: fetch_calendar_def Let_def split: sum.splits prod.splits)

lemma add_instructions_frame:
  "l_query (add_whatsapp (add_linkedin l)) = l_query l \<and>
   l_requestId (add_whatsapp (add_linkedin l)) = l_requestId l \<and>
   l_userId (add_whatsapp (add_linkedin l)) = l_userId l \<and>
   l_conversationId (add_whatsapp (add_linkedin l)) = l_conversationId l \<and>
   l_analysis (add_whatsapp (add_linkedin l)) = l_analysis l \<and>
   l_results (add_whatsapp (add_linkedin l)) = l_results l \<and>
   filter (\<lambda>s. s = ''gmail'' \<or> s = ''calendar'') (l_sourcesNeeded (add_whatsapp (add_linkedin l)))
     = filter (\<lambda>s. s = ''gmail'' \<or> s = ''calendar'') (l_sourcesNeeded l)"
  by (simp add: add_whatsapp_def add_linkedin_def split: option.splits)

text \<open>The synchronous reply in terms of the locals after the two fetch steps.\<close>

lemma ask_process_sync:
  assumes "getFeatureFlags env = Inr ff" and "analyzeQuery env = Inr raw"
    and "\<not> needsExtension ff (filterAnalysisByFlags env raw ff)"
    and "fetch_gmail env rt (initial_locals env q (filterAnalysisByFlags env raw ff) tok, w)
           = (l1, w1)"
    and "fetch_calendar env rt (l1, w1) = (l2, w2)"
  shows "ask_process env q rt tok w s =
           ((case synthesizeAnswer env q (mergeResults env (l_results l2)) of
               Inl e \<Rightarrow> processing_failed (e_requestId env)
             | Inr a \<Rightarrow>
                 CompleteReply (e_requestId env) a
                   ((if needsGmail (filterAnalysisByFlags env raw ff) then [''gmail''] else []) @
                    (if needsCalendar (filterAnalysisByFlags env raw ff)
                     then [''calendar''] else []))
                   (e_conversationId env)), w2, s)"
proof -
  let ?an = "filterAnalysisByFlags env raw ff"
  let ?l0 = "initial_locals env q ?an tok"
  from fetch_gmail_frame [of env rt ?l0 w] assms(4)
  have f1: "l_query l1 = q" "l_requestId l1 = e_requestId env"
      "l_conversationId l1 = e_conversationId env" "l_analysis l1 = ?an"
      "l_sourcesNeeded l1 = (if needsGmail ?an then [''gmail''] else [])"
    by (simp_all add: initial_locals_def)
  from fetch_calendar_frame [of env rt l1 w1] assms(5) f1
  have f2: "l_query l2 = q" "l_requestId l2 = e_requestId env"
      "l_conversationId l2 = e_conversationId env"
      "l_sourcesNeeded l2 = (if needsGmail ?an then [''gmail''] else []) @
                            (if needsCalendar ?an then [''calendar''] else [])"
    by simp_all
  from assms f2 add_instructions_frame [of l2] show ?thesis
    by (simp add: ask_process_def Let_def sync_reply_def split: sum.splits)
qed

section \<open>A failed source in the synchronous reply\<close>

text \<open>
  Claim C8, as the code has it.  On the synchronous path, when Calendar is needed and
  its fetch fails even after the retry, the answer is synthesized from the merged hits
  that the Gmail step collected, and \<open>sources_searched\<close> is \<open>gmail\<close> (if needed)
  followed by \<open>calendar\<close>: the failed source is still listed, because its name is
  pushed before the fetch is tried.
\<close>

theorem failed_source_still_listed:
  assumes "getFeatureFlags env = Inr ff" and "analyzeQuery env = Inr raw"
    and "\<not> needsExtension ff (filterAnalysisByFlags env raw ff)"
    and "needsCalendar (filterAnalysisByFlags env raw ff)"
    and "fetch_gmail env rt (initial_locals env q (filterAnalysisByFlags env raw ff) tok, w)
           = (l1, w1)"
    and "fst (retryOn401 env rt (call_getCalendarEvents env) (l_accessToken l1) w1) = Inl e"
  shows "fst (ask_process env q rt tok w s) =
           (case synthesizeAnswer env q (mergeResults env (l_results l1)) of
              Inl e' \<Rightarrow> processing_failed (e_requestId env)
            | Inr a \<Rightarrow>
                CompleteReply (e_requestId env) a
                  ((if needsGmail (filterAnalysisByFlags env raw ff) then [''gmail''] else []) @
                   [''calendar''])
                  (e_conversationId env))"
proof -
  obtain l2 w2 where c: "fetch_calendar env rt (l1, w1) = (l2, w2)"
    by (cases "fetch_calendar env rt (l1, w1)")
  from fetch_gmail_frame [of env rt "initial_locals env q (filterAnalysisByFlags env raw ff) tok" w]
    assms(5)
  have an: "l_analysis l1 = filterAnalysisByFlags env raw ff"
    by (simp add: initial_locals_def)
  from c assms(4,6) an have "l_results l2 = l_results l1"
    by (auto simp: fetch_calendar_def Let_def split: sum.splits prod.splits)
  with ask_process_sync [OF assms(1,2,3,5) c, of s] assms(4) show ?thesis by simp
qed

theorem failed_source_still_listed_witness:
  "fst (ask_process ex_env_401 ''who wrote about rust'' ''rt'' ''t0'' ex_world empty_server)
     = CompleteReply ''r1'' (Answer ''mail-1'') [''gmail'', ''calendar''] None"
proof -
  let ?an = "ex_analysis\<lparr>needsCalendar := True, needsLinkedIn := False\<rparr>"
  let ?l1 = "(initial_locals ex_env_401 ''who wrote about rust'' ?an ''t0'')
               \<lparr>l_sourcesNeeded := [''gmail''], l_gmailPlan := Some ex_plan,
                l_accessToken := ''t1'', l_results := [ex_hit ''gmail'' ''mail-1'']\<rparr>"
  let ?w1 = "ex_world\<lparr>refresh_calls := [''rt''], gmail_calls := [''t0'', ''t1''],
               connection_updates := [(''enc-t1'', 3601000)]\<rparr>"
  have f: "getFeatureFlags ex_env_401 = Inr \<lparr>enableAsyncMode = True\<rparr>"
    by (simp add: ex_env_401_def ex_env_def)
  have a: "analyzeQuery ex_env_401 = Inr ?an"
    by (simp add: ex_env_401_def ex_env_def)
  have fl: "filterAnalysisByFlags ex_env_401 ?an \<lparr>enableAsyncMode = True\<rparr> = ?an"
    by (simp add: ex_env_401_def ex_env_def)
  have n: "\<not> needsExtension \<lparr>enableAsyncMode = True\<rparr>
              (filterAnalysisByFlags ex_env_401 ?an \<lparr>enableAsyncMode = True\<rparr>)"
    unfolding fl by (simp add: needsExtension_def ex_analysis_def)
  have c: "needsCalendar (filterAnalysisByFlags ex_env_401 ?an \<lparr>enableAsyncMode = True\<rparr>)"
    unfolding fl by simp
  have g: "fetch_gmail ex_env_401 ''rt''
             (initial_locals ex_env_401 ''who wrote about rust''
                (filterAnalysisByFlags ex_env_401 ?an \<lparr>enableAsyncMode = True\<rparr>) ''t0'', ex_world)
           = (?l1, ?w1)"
    unfolding fl by (simp add: ask_defs ex_env_defs Let_def)
  have r: "fst (retryOn401 ex_env_401 ''rt'' (call_getCalendarEvents ex_env_401)
                  (l_accessToken ?l1) ?w1) = Inl err401"
    by (simp add: ask_defs ex_env_defs Let_def)
  from failed_source_still_listed [OF f a n c g r, of empty_server] show ?thesis
    unfolding fl by (simp add: ex_env_defs initial_locals_def)
qed

text \<open>
  The claim as worded fails on the second example request: both Calendar calls throw a
  401, the answer is made from the one mail hit, and \<open>sources_searched\<close> contains
  \<open>calendar\<close>.
\<close>

theorem failed_calendar_in_sources_searched:
  "getCalendarEvents ex_env_401 0 ''t1'' = Inl err401 \<and>
   getCalendarEvents ex_env_401 1 ''t1'' = Inl err401 \<and>
   isUnauthorized err401 \<and>
   ask ex_env_401 ex_world empty_server =
     (CompleteReply ''r1'' (Answer ''mail-1'') [''gmail'', ''calendar''] None,
      \<lparr>refresh_calls = [''rt'', ''rt''], gmail_calls = [''t0'', ''t1''],
       calendar_calls = [''t1'', ''t1''],
       connection_updates = [(''enc-t1'', 3601000), (''enc-t1'', 3601000)]\<rparr>,
      empty_server)"
  by (simp add: ask_defs ex_env_defs Let_def)

section \<open>The expiry check\<close>

text \<open>
  Claim C9, as the code has it.  Once the body is parsed, the connection found and the
  tokens decrypted, the handler runs the expiry check and then either replies or enters
  the \<open>try\<close> block.  The check sends the refresh token, once, exactly when the stored
  expiry is absent or strictly earlier than the clock reading; an expiry equal to the
  clock reading does not count as expired, and then the stored access token is used as
  it is.  If the refresh is due and fails, the reply is the 400 with code
  \<open>TOKEN_REFRESH_FAILED\<close>, no Gmail or Calendar call has been made, and the store is
  unchanged.
\<close>

theorem proactive_refresh_when_expired:
  assumes "e_body env = Some (q, c)" and "e_googleConnection env = Some conn"
    and "decryptTokens env conn = Inr (tok, rt)"
  shows "ask env w s =
           (case check_token env conn tok rt w of
              (Inl reply, w1) \<Rightarrow> (reply, w1, s)
            | (Inr accessToken, w1) \<Rightarrow> ask_process env q rt accessToken w1 s) \<and>
         refresh_calls (snd (check_token env conn tok rt w)) =
           (if token_expires_at conn = None \<or>
               (\<exists>t. token_expires_at conn = Some t \<and> t < now_check env)
            then refresh_calls w @ [rt] else refresh_calls w) \<and>
         (\<not> (token_expires_at conn = None \<or>
              (\<exists>t. token_expires_at conn = Some t \<and> t < now_check env)) \<longrightarrow>
            check_token env conn tok rt w = (Inr tok, w)) \<and>
         ((token_expires_at conn = None \<or>
             (\<exists>t. token_expires_at conn = Some t \<and> t < now_check env)) \<and>
          (\<exists>e. fst (refreshAndUpdateToken env rt w) = Inl e) \<longrightarrow>
            fst (ask env w s) =
              ErrorReply 400
                [(''error'', ''Failed to refresh Google token. Please reconnect your account.''),
                 (''code'', ''TOKEN_REFRESH_FAILED'')] \<and>
            gmail_calls (fst (snd (ask env w s))) = gmail_calls w \<and>
            calendar_calls (fst (snd (ask env w s))) = calendar_calls w \<and>
            snd (snd (ask env w s)) = s)"
proof -
  have nr: "needsRefresh (token_expires_at conn) (now_check env) \<longleftrightarrow>
              token_expires_at conn = None \<or>
              (\<exists>t. token_expires_at conn = Some t \<and> t < now_check env)"
    by (simp add: needsRefresh_def split: option.splits)
  have a: "ask env w s =
           (case check_token env conn tok rt w of
              (Inl reply, w1) \<Rightarrow> (reply, w1, s)
            | (Inr accessToken, w1) \<Rightarrow> ask_process env q rt accessToken w1 s)"
    using assms by (simp add: ask_def)
  obtain r w2 where rw: "refreshAndUpdateToken env rt w = (r, w2)"
    by (cases "refreshAndUpdateToken env rt w")
  note lg = refreshAndUpdateToken_logs [OF rw]
  have b: "refresh_calls (snd (check_token env conn tok rt w)) =
           (if token_expires_at conn = None \<or>
               (\<exists>t. token_expires_at conn = Some t \<and> t < now_check env)
            then refresh_calls w @ [rt] else refresh_calls w)"
    using lg rw unfolding nr [symmetric]
    by (simp add: check_token_def split: sum.splits)
  have c: "\<not> (token_expires_at conn = None \<or>
              (\<exists>t. token_expires_at conn = Some t \<and> t < now_check env)) \<longrightarrow>
            check_token env conn tok rt w = (Inr tok, w)"
    unfolding nr [symmetric] by (simp add: check_token_def)
  have d: "(token_expires_at conn = None \<or>
             (\<exists>t. token_expires_at conn = Some t \<and> t < now_check env)) \<and>
          (\<exists>e. fst (refreshAndUpdateToken env rt w) = Inl e) \<longrightarrow>
            fst (ask env w s) =
              ErrorReply 400
                [(''error'', ''Failed to refresh Google token. Please reconnect your account.''),
                 (''code'', ''TOKEN_REFRESH_FAILED'')] \<and>
            gmail_calls (fst (snd (ask env w s))) = gmail_calls w \<and>
            calendar_calls (fst (snd (ask env w s))) = calendar_calls w \<and>
            snd (snd (ask env w s)) = s"
    using lg rw unfolding nr [symmetric] a
    by (auto simp: check_token_def)
  from a b c d show ?thesis by blast
qed

theorem proactive_refresh_when_expired_witness:
  "fst (ask (ex_env\<lparr>now_check := 5001, refreshAccessToken := (\<lambda>k rt. Inl err401)\<rparr>)
          ex_world empty_server)
     = ErrorReply 400
         [(''error'', ''Failed to refresh Google token. Please reconnect your account.''),
          (''code'', ''TOKEN_REFRESH_FAILED'')] \<and>
   refresh_calls (snd (check_token
       (ex_env\<lparr>now_check := 5001, refreshAccessToken := (\<lambda>k rt. Inl err401)\<rparr>)
       \<lparr>conn_access_token = ''enc-t0'', conn_refresh_token = ''enc-rt'',
        token_expires_at = Some 5000\<rparr> ''t0'' ''rt'' ex_world)) = [''rt''] \<and>
   gmail_calls (fst (snd (ask
       (ex_env\<lparr>now_check := 5001, refreshAccessToken := (\<lambda>k rt. Inl err401)\<rparr>)
       ex_world empty_server))) = [] \<and>
   check_token ex_env
       \<lparr>conn_access_token = ''enc-t0'', conn_refresh_token = ''enc-rt'',
        token_expires_at = Some 5000\<rparr> ''t0'' ''rt'' ex_world = (Inr ''t0'', ex_world)"
proof -
  let ?env = "ex_env\<lparr>now_check := 5001, refreshAccessToken := (\<lambda>k rt. Inl err401)\<rparr>"
  let ?conn = "\<lparr>conn_access_token = ''enc-t0'', conn_refresh_token = ''enc-rt'',
                token_expires_at = Some 5000\<rparr>"
  have b: "e_body ?env = Some (''who wrote about rust'', None)"
    by (simp add: ex_env_def)
  have g: "e_googleConnection ?env = Some ?conn"
    by (simp add: ex_env_def)
  have d: "decryptTokens ?env ?conn = Inr (''t0'', ''rt'')"
    by (simp add: ex_env_def)
  have r: "fst (refreshAndUpdateToken ?env ''rt'' ex_world) = Inl err401"
    by (simp add: refreshAndUpdateToken_def ex_env_def Let_def)
  have w: "refresh_calls ex_world = []" "gmail_calls ex_world = []"
    by (simp_all add: ex_world_def)
  have cond: "token_expires_at ?conn = None \<or>
              (\<exists>t. token_expires_at ?conn = Some t \<and> t < now_check ?env)"
    by simp
  from r have ex: "\<exists>e. fst (refreshAndUpdateToken ?env ''rt'' ex_world) = Inl e"
    by blast
  note th = proactive_refresh_when_expired [OF b g d, of ex_world empty_server]
  from th have "refresh_calls (snd (check_token ?env ?conn ''t0'' ''rt'' ex_world)) =
           (if token_expires_at ?conn = None \<or>
               (\<exists>t. token_expires_at ?conn = Some t \<and> t < now_check ?env)
            then refresh_calls ex_world @ [''rt''] else refresh_calls ex_world)"
    by blast
  with cond w have c2: "refresh_calls (snd (check_token ?env ?conn ''t0'' ''rt'' ex_world)) = [''rt'']"
    by (simp only: if_True append_Nil)
  from th cond ex have c3: "fst (ask ?env ex_world empty_server) =
              ErrorReply 400
                [(''error'', ''Failed to refresh Google token. Please reconnect your account.''),
                 (''code'', ''TOKEN_REFRESH_FAILED'')] \<and>
            gmail_calls (fst (snd (ask ?env ex_world empty_server))) = gmail_calls ex_world"
    by blast
  have b': "e_body ex_env = Some (''who wrote about rust'', None)"
    and g': "e_googleConnection ex_env = Some ?conn"
    and d': "decryptTokens ex_env ?conn = Inr (''t0'', ''rt'')"
    by (simp_all add: ex_env_def)
  have fresh: "\<not> (token_expires_at ?conn = None \<or>
                  (\<exists>t. token_expires_at ?conn = Some t \<and> t < now_check ex_env))"
    by (simp add: ex_env_def)
  from proactive_refresh_when_expired [OF b' g' d', of ex_world empty_server] fresh
  have c4: "check_token ex_env ?conn ''t0'' ''rt'' ex_world = (Inr ''t0'', ex_world)"
    by blast
  from c2 c3 c4 w show ?thesis by (simp only:)
qed

text \<open>
  The claim as worded fails for the example request when the clock reads 5000, the very
  instant the stored token expires: no refresh is made and Gmail is called with the
  stored token \<open>t0\<close>.
\<close>

theorem no_refresh_at_the_expiry_instant:
  "token_expires_at \<lparr>conn_access_token = ''enc-t0'', conn_refresh_token = ''enc-rt'',
                     token_expires_at = Some 5000\<rparr> = Some (now_check (ex_env\<lparr>now_check := 5000\<rparr>)) \<and>
   check_token (ex_env\<lparr>now_check := 5000\<rparr>)
       \<lparr>conn_access_token = ''enc-t0'', conn_refresh_token = ''enc-rt'',
        token_expires_at = Some 5000\<rparr> ''t0'' ''rt'' ex_world = (Inr ''t0'', ex_world) \<and>
   ask (ex_env\<lparr>now_check := 5000\<rparr>) ex_world empty_server =
     (PendingReply ''r1'' [''linkedin'']
        [\<lparr>ins_request_id = ''r1'', ins_source = ''linkedin'', ins_keywords = [''rust'']\<rparr>],
      ex_world\<lparr>gmail_calls := [''t0'']\<rparr>, ex_server)"
  by (simp add: ask_def check_token_def ex_env_def needsRefresh_def ask_process_def
        initial_locals_def ex_analysis_def fetch_gmail_def fetch_calendar_def retryOn401_def
        call_searchGmail_def ex_world_def ex_plan_def add_linkedin_def add_whatsapp_def
        needsExtension_def ex_server_def ex_locals_def register_pending_def Let_def)

section \<open>A needed extension source without keywords\<close>

text \<open>
  One event that is neither a submission for the request nor a registration under its
  id, on a store where no task and no timer holds the id: only a sweep that is due
  touches the entry, and it deletes it.
\<close>

lemma quiet_step:
  assumes "rid \<notin> set (tasks s)" and "rid \<notin> snd ` set (timers s)"
    and "submit_sources rid [ev] = []" and "rid \<notin> set (registered [ev])"
  shows "rid \<notin> set (tasks (apply_event ev s)) \<and>
         rid \<notin> snd ` set (timers (apply_event ev s)) \<and>
         pendingSearches (apply_event ev s) rid =
           (case pendingSearches s rid of
              None \<Rightarrow> None
            | Some p \<Rightarrow>
                if \<exists>l now. ev = Register l now \<and> created_at p < now - 300000
                then None else Some p)"
proof (cases ev)
  case (Register l now)
  with assms show ?thesis
    by (auto simp: register_pending_def sweep_def Let_def split: option.splits)
next
  case (Poll u r)
  with assms show ?thesis by (simp add: get_ask_def split: option.splits)
next
  case (PollStatus u r)
  with assms show ?thesis by (simp add: get_ask_status_def split: option.splits)
next
  case (Submit u r src sn)
  with assms have "r \<noteq> rid" by (auto split: if_splits)
  with Submit assms show ?thesis
    by (auto simp: dom_results_def Let_def split: option.splits)
next
  case (SynthesisDone r out now)
  show ?thesis
  proof (cases "r = rid")
    case True
    with SynthesisDone assms show ?thesis
      by (simp add: synthesis_done_def split: option.splits)
  next
    case False
    have "set (remove1 r (tasks s)) \<subseteq> set (tasks s)" by (rule set_remove1_subset)
    with False SynthesisDone assms show ?thesis
      by (cases out) (auto simp: synthesis_done_def Let_def split: option.splits)
  qed
next
  case (Timers now)
  with assms show ?thesis by (force simp: run_timers_def split: option.splits)
qed

text \<open>
  The same over a whole history: the entry is gone exactly if some registration in the
  history had its sweep due, and is otherwise untouched.
\<close>

lemma quiet_run:
  assumes "pendingSearches s rid = Some p"
    and "rid \<notin> set (tasks s)" and "rid \<notin> snd ` set (timers s)"
    and "submit_sources rid evs = []" and "rid \<notin> set (registered evs)"
  shows "rid \<notin> set (tasks (run evs s)) \<and>
         rid \<notin> snd ` set (timers (run evs s)) \<and>
         pendingSearches (run evs s) rid =
           (if \<exists>l now. Register l now \<in> set evs \<and> created_at p < now - 300000
            then None else Some p)"
  using assms(4,5)
proof (induction evs rule: rev_induct)
  case Nil
  with assms(1,2,3) show ?case by simp
next
  case (snoc ev evs)
  from snoc.prems have q: "submit_sources rid evs = []" "rid \<notin> set (registered evs)"
      "submit_sources rid [ev] = []" "rid \<notin> set (registered [ev])"
    by (simp_all add: submit_sources_append registered_append)
  let ?s = "run evs s"
  from snoc.IH [OF q(1,2)]
  have IH: "rid \<notin> set (tasks ?s)" "rid \<notin> snd ` set (timers ?s)"
      "pendingSearches ?s rid =
         (if \<exists>l now. Register l now \<in> set evs \<and> created_at p < now - 300000
          then None else Some p)"
    by blast+
  from quiet_step [OF IH(1,2) q(3,4)]
  have st: "rid \<notin> set (tasks (apply_event ev ?s))"
      "rid \<notin> snd ` set (timers (apply_event ev ?s))"
      "pendingSearches (apply_event ev ?s) rid =
         (case pendingSearches ?s rid of
            None \<Rightarrow> None
          | Some p \<Rightarrow>
              if \<exists>l now. ev = Register l now \<and> created_at p < now - 300000
              then None else Some p)"
    by blast+
  have "pendingSearches (apply_event ev ?s) rid =
          (if \<exists>l now. Register l now \<in> set (evs @ [ev]) \<and> created_at p < now - 300000
           then None else Some p)"
  proof (cases "\<exists>l now. Register l now \<in> set evs \<and> created_at p < now - 300000")
    case True
    with IH(3) st(3) show ?thesis by auto
  next
    case False
    with IH(3) have "pendingSearches ?s rid = Some p" by simp
    with st(3) False show ?thesis by auto
  qed
  with st(1,2) show ?case by simp
qed

text \<open>The pending branch in terms of the locals after the two fetch steps.\<close>

lemma ask_process_pending:
  assumes "getFeatureFlags env = Inr ff" and "analyzeQuery env = Inr raw"
    and "needsExtension ff (filterAnalysisByFlags env raw ff)"
  shows "\<exists>l2. l_requestId l2 = e_requestId env \<and>
           l_analysis l2 = filterAnalysisByFlags env raw ff \<and>
           set (l_sourcesNeeded l2) \<subseteq> {''gmail'', ''calendar''} \<and>
           l_domInstructions l2 = [] \<and>
           fst (ask_process env q rt tok w s) =
             fst (register_pending (add_whatsapp (add_linkedin l2)) (now_register env) s) \<and>
           snd (snd (ask_process env q rt tok w s)) =
             snd (register_pending (add_whatsapp (add_linkedin l2)) (now_register env) s)"
proof -
  let ?an = "filterAnalysisByFlags env raw ff"
  let ?l0 = "initial_locals env q ?an tok"
  obtain l1 w1 where g: "fetch_gmail env rt (?l0, w) = (l1, w1)"
    by (cases "fetch_gmail env rt (?l0, w)")
  obtain l2 w2 where c: "fetch_calendar env rt (l1, w1) = (l2, w2)"
    by (cases "fetch_calendar env rt (l1, w1)")
  from fetch_gmail_frame [of env rt ?l0 w] g
  have f1: "l_requestId l1 = e_requestId env" "l_analysis l1 = ?an"
      "l_domInstructions l1 = []"
      "l_sourcesNeeded l1 = (if needsGmail ?an then [''gmail''] else [])"
    by (simp_all add: initial_locals_def)
  from fetch_calendar_frame [of env rt l1 w1] c f1
  have f2: "l_requestId l2 = e_requestId env" "l_analysis l2 = ?an"
      "l_domInstructions l2 = []"
      "l_sourcesNeeded l2 = (if needsGmail ?an then [''gmail''] else []) @
                            (if needsCalendar ?an then [''calendar''] else [])"
    by simp_all
  from assms g c have "fst (ask_process env q rt tok w s) =
             fst (register_pending (add_whatsapp (add_linkedin l2)) (now_register env) s) \<and>
           snd (snd (ask_process env q rt tok w s)) =
             snd (register_pending (add_whatsapp (add_linkedin l2)) (now_register env) s)"
    by (simp add: ask_process_def Let_def split: prod.splits)
  with f2 show ?thesis by (intro exI [of _ l2]) auto
qed

text \<open>An extension source without keywords gets neither an instruction nor a place in
  \<open>sourcesNeeded\<close>.\<close>

lemma no_keywords_no_instruction:
  assumes "set (l_sourcesNeeded l) \<subseteq> {''gmail'', ''calendar''}" and "l_domInstructions l = []"
    and "src = ''linkedin'' \<and>
           (linkedInKeywords (l_analysis l) = None \<or> linkedInKeywords (l_analysis l) = Some []) \<or>
         src = ''whatsapp'' \<and>
           (whatsAppKeywords (l_analysis l) = None \<or> whatsAppKeywords (l_analysis l) = Some [])"
  shows "src \<notin> set (l_sourcesNeeded (add_whatsapp (add_linkedin l))) \<and>
         src \<notin> ins_source ` set (l_domInstructions (add_whatsapp (add_linkedin l)))"
  using assms
  by (auto simp: add_whatsapp_def add_linkedin_def split: option.splits if_splits)

text \<open>
  Claim C10, as the code has it.  Asynchronous mode is on and the analysis marks
  LinkedIn (or WhatsApp) as needed while its keyword list is absent or empty.  Then the
  handler, once it is past flags and analysis, replies \<open>pending\<close> and stores a pending
  search in status \<open>pending\<close>; neither the reply's source list, nor its instructions,
  nor the stored \<open>sources_needed\<close> mention that source.  The request id being new (no
  task and no timer holds it), after any further history that has no submission at all
  for this request and no registration under its id, the entry is gone exactly if the
  history contains a registration made more than five minutes after this one, whose
  sweep deletes it, and is otherwise still stored with status \<open>pending\<close>.
\<close>

theorem pending_without_instruction:
  assumes "getFeatureFlags env = Inr ff" and "enableAsyncMode ff"
    and "analyzeQuery env = Inr raw"
    and "src = ''linkedin'' \<and> needsLinkedIn (filterAnalysisByFlags env raw ff) \<and>
           (linkedInKeywords (filterAnalysisByFlags env raw ff) = None \<or>
            linkedInKeywords (filterAnalysisByFlags env raw ff) = Some []) \<or>
         src = ''whatsapp'' \<and> needsWhatsApp (filterAnalysisByFlags env raw ff) \<and>
           (whatsAppKeywords (filterAnalysisByFlags env raw ff) = None \<or>
            whatsAppKeywords (filterAnalysisByFlags env raw ff) = Some [])"
    and "e_requestId env \<notin> set (tasks s)" and "e_requestId env \<notin> snd ` set (timers s)"
    and "submit_sources (e_requestId env) evs = []"
    and "e_requestId env \<notin> set (registered evs)"
  shows "(\<exists>srcs ins. fst (ask_process env q rt tok w s) = PendingReply (e_requestId env) srcs ins \<and>
            src \<notin> set srcs \<and> src \<notin> ins_source ` set ins) \<and>
         stored_status (snd (snd (ask_process env q rt tok w s))) (e_requestId env)
           = Some Pending \<and>
         (\<exists>sn. stored_sources_needed (snd (snd (ask_process env q rt tok w s))) (e_requestId env)
                 = Some sn \<and> src \<notin> set sn) \<and>
         stored_status (run evs (snd (snd (ask_process env q rt tok w s)))) (e_requestId env)
           = (if \<exists>l now. Register l now \<in> set evs \<and> now_register env < now - 300000
              then None else Some Pending)"
proof -
  let ?an = "filterAnalysisByFlags env raw ff"
  let ?rid = "e_requestId env"
  from assms(2,4) have ne: "needsExtension ff ?an"
    by (auto simp: needsExtension_def)
  from ask_process_pending [OF assms(1,3) ne, of q rt tok w s]
  obtain l2 where l2: "l_requestId l2 = ?rid" "l_analysis l2 = ?an"
      "set (l_sourcesNeeded l2) \<subseteq> {''gmail'', ''calendar''}" "l_domInstructions l2 = []"
      "fst (ask_process env q rt tok w s) =
         fst (register_pending (add_whatsapp (add_linkedin l2)) (now_register env) s)"
      "snd (snd (ask_process env q rt tok w s)) =
         snd (register_pending (add_whatsapp (add_linkedin l2)) (now_register env) s)"
    by blast
  let ?l4 = "add_whatsapp (add_linkedin l2)"
  let ?s' = "snd (register_pending ?l4 (now_register env) s)"
  let ?p = "new_pendingSearch ?l4 (now_register env)"
  from assms(4) l2(2) have kw:
    "src = ''linkedin'' \<and>
       (linkedInKeywords (l_analysis l2) = None \<or> linkedInKeywords (l_analysis l2) = Some []) \<or>
     src = ''whatsapp'' \<and>
       (whatsAppKeywords (l_analysis l2) = None \<or> whatsAppKeywords (l_analysis l2) = Some [])"
    by auto
  from no_keywords_no_instruction [OF l2(3,4) kw]
  have out: "src \<notin> set (l_sourcesNeeded ?l4)" "src \<notin> ins_source ` set (l_domInstructions ?l4)"
    by blast+
  from add_instructions_frame [of l2] l2(1) have rid4: "l_requestId ?l4 = ?rid" by simp
  have reply: "fst (register_pending ?l4 (now_register env) s) =
      PendingReply ?rid (filter (\<lambda>s. s = ''linkedin'' \<or> s = ''whatsapp'') (l_sourcesNeeded ?l4))
        (l_domInstructions ?l4)"
    using rid4 by (simp add: register_pending_def Let_def)
  have entry: "pendingSearches ?s' ?rid = Some ?p"
    using rid4 by (simp add: register_pending_def Let_def sweep_def new_pendingSearch_def)
  have tt: "tasks ?s' = tasks s" "timers ?s' = timers s"
    by (simp_all add: register_pending_def Let_def)
  have a: "\<exists>srcs ins. fst (ask_process env q rt tok w s) = PendingReply ?rid srcs ins \<and>
            src \<notin> set srcs \<and> src \<notin> ins_source ` set ins"
    using reply out l2(5) by auto
  have b: "stored_status (snd (snd (ask_process env q rt tok w s))) ?rid = Some Pending"
    using entry l2(6) by (simp add: stored_status_def new_pendingSearch_def)
  have c: "\<exists>sn. stored_sources_needed (snd (snd (ask_process env q rt tok w s))) ?rid = Some sn \<and>
             src \<notin> set sn"
    using entry l2(6) out by (simp add: stored_sources_needed_def new_pendingSearch_def)
  from quiet_run [OF entry _ _ assms(7,8)] assms(5,6) tt
  have "pendingSearches (run evs ?s') ?rid =
          (if \<exists>l now. Register l now \<in> set evs \<and> created_at ?p < now - 300000
           then None else Some ?p)"
    by simp
  then have d: "stored_status (run evs (snd (snd (ask_process env q rt tok w s)))) ?rid
            = (if \<exists>l now. Register l now \<in> set evs \<and> now_register env < now - 300000
               then None else Some Pending)"
    unfolding l2(6) by (simp add: stored_status_def new_pendingSearch_def)
  from a b c d show ?thesis by blast
qed


theorem pending_without_instruction_witness:
  "fst (ask_process (ex_env\<lparr>analyzeQuery := Inr (ex_analysis\<lparr>linkedInKeywords := Some []\<rparr>)\<rparr>)
          ''who wrote about rust'' ''rt'' ''t0'' ex_world empty_server)
     = PendingReply ''r1'' [] [] \<and>
   (\<exists>sn. stored_sources_needed
       (snd (snd (ask_process
          (ex_env\<lparr>analyzeQuery := Inr (ex_analysis\<lparr>linkedInKeywords := Some []\<rparr>)\<rparr>)
          ''who wrote about rust'' ''rt'' ''t0'' ex_world empty_server))) ''r1'' = Some sn \<and>
       ''linkedin'' \<notin> set sn) \<and>
   stored_status
     (run [Poll ''alice'' ''r1'', Timers 400000,
           Register (ex_locals\<lparr>l_requestId := ''r2''\<rparr>) 200000]
        (snd (snd (ask_process
          (ex_env\<lparr>analyzeQuery := Inr (ex_analysis\<lparr>linkedInKeywords := Some []\<rparr>)\<rparr>)
          ''who wrote about rust'' ''rt'' ''t0'' ex_world empty_server)))) ''r1''
     = Some Pending \<and>
   stored_status
     (run [Poll ''alice'' ''r1'', Register (ex_locals\<lparr>l_requestId := ''r2''\<rparr>) 301001]
        (snd (snd (ask_process
          (ex_env\<lparr>analyzeQuery := Inr (ex_analysis\<lparr>linkedInKeywords := Some []\<rparr>)\<rparr>)
          ''who wrote about rust'' ''rt'' ''t0'' ex_world empty_server)))) ''r1''
     = None"
proof -
  let ?env = "ex_env\<lparr>analyzeQuery := Inr (ex_analysis\<lparr>linkedInKeywords := Some []\<rparr>)\<rparr>"
  let ?kept = "[Poll ''alice'' ''r1'', Timers 400000,
                Register (ex_locals\<lparr>l_requestId := ''r2''\<rparr>) 200000]"
  let ?swept = "[Poll ''alice'' ''r1'', Register (ex_locals\<lparr>l_requestId := ''r2''\<rparr>) 301001]"
  have f: "getFeatureFlags ?env = Inr \<lparr>enableAsyncMode = True\<rparr>"
    by (simp add: ex_env_def)
  have m: "enableAsyncMode \<lparr>enableAsyncMode = True\<rparr>" by simp
  have a: "analyzeQuery ?env = Inr (ex_analysis\<lparr>linkedInKeywords := Some []\<rparr>)"
    by simp
  have k: "''linkedin'' = ''linkedin'' \<and>
      needsLinkedIn (filterAnalysisByFlags ?env (ex_analysis\<lparr>linkedInKeywords := Some []\<rparr>)
                       \<lparr>enableAsyncMode = True\<rparr>) \<and>
      (linkedInKeywords (filterAnalysisByFlags ?env (ex_analysis\<lparr>linkedInKeywords := Some []\<rparr>)
                           \<lparr>enableAsyncMode = True\<rparr>) = None \<or>
       linkedInKeywords (filterAnalysisByFlags ?env (ex_analysis\<lparr>linkedInKeywords := Some []\<rparr>)
                           \<lparr>enableAsyncMode = True\<rparr>) = Some []) \<or>
    ''linkedin'' = ''whatsapp'' \<and>
      needsWhatsApp (filterAnalysisByFlags ?env (ex_analysis\<lparr>linkedInKeywords := Some []\<rparr>)
                       \<lparr>enableAsyncMode = True\<rparr>) \<and>
      (whatsAppKeywords (filterAnalysisByFlags ?env (ex_analysis\<lparr>linkedInKeywords := Some []\<rparr>)
                           \<lparr>enableAsyncMode = True\<rparr>) = None \<or>
       whatsAppKeywords (filterAnalysisByFlags ?env (ex_analysis\<lparr>linkedInKeywords := Some []\<rparr>)
                           \<lparr>enableAsyncMode = True\<rparr>) = Some [])"
    by (simp add: ex_env_def ex_analysis_def)
  have t1: "e_requestId ?env \<notin> set (tasks empty_server)"
    and t2: "e_requestId ?env \<notin> snd ` set (timers empty_server)"
    by (simp_all add: empty_server_def)
  have rid: "e_requestId ?env = ''r1''" by (simp add: ex_env_def)
  have nr: "now_register ?env = 1000" by (simp add: ex_env_def)
  have q1: "submit_sources (e_requestId ?env) ?kept = []" by simp
  have q2: "e_requestId ?env \<notin> set (registered ?kept)"
    by (simp add: ex_env_def)
  have q3: "submit_sources (e_requestId ?env) ?swept = []" by simp
  have q4: "e_requestId ?env \<notin> set (registered ?swept)"
    by (simp add: ex_env_def)
  note kept = pending_without_instruction [OF f m a k t1 t2 q1 q2,
      of "''who wrote about rust''" "''rt''" "''t0''" ex_world]
  note swept = pending_without_instruction [OF f m a k t1 t2 q3 q4,
      of "''who wrote about rust''" "''rt''" "''t0''" ex_world]
  have reply: "fst (ask_process ?env ''who wrote about rust'' ''rt'' ''t0'' ex_world empty_server)
     = PendingReply ''r1'' [] []"
    by (simp add: ask_process_def initial_locals_def ex_env_def ex_analysis_def
        fetch_gmail_def fetch_calendar_def retryOn401_def call_searchGmail_def ex_world_def
        ex_plan_def add_linkedin_def add_whatsapp_def needsExtension_def
        register_pending_def Let_def)
  have nosweep: "\<not> (\<exists>l now. Register l now \<in> set ?kept \<and> (1000::int) < now - 300000)"
    by simp
  have sweep: "\<exists>l now. Register l now \<in> set ?swept \<and> (1000::int) < now - 300000"
    by simp
  from kept have "stored_status (run ?kept (snd (snd (ask_process ?env ''who wrote about rust''
                   ''rt'' ''t0'' ex_world empty_server)))) ''r1'' =
          (if \<exists>l now. Register l now \<in> set ?kept \<and> (1000::int) < now - 300000
           then None else Some Pending)"
    unfolding rid nr by blast
  with nosweep have still: "stored_status (run ?kept (snd (snd (ask_process ?env
        ''who wrote about rust'' ''rt'' ''t0'' ex_world empty_server)))) ''r1'' = Some Pending"
    by (simp only: if_False)
  from swept have "stored_status (run ?swept (snd (snd (ask_process ?env ''who wrote about rust''
                   ''rt'' ''t0'' ex_world empty_server)))) ''r1'' =
          (if \<exists>l now. Register l now \<in> set ?swept \<and> (1000::int) < now - 300000
           then None else Some Pending)"
    unfolding rid nr by blast
  with sweep have gone: "stored_status (run ?swept (snd (snd (ask_process ?env
        ''who wrote about rust'' ''rt'' ''t0'' ex_world empty_server)))) ''r1'' = None"
    by (simp only: if_True)
  from kept have "\<exists>sn. stored_sources_needed (snd (snd (ask_process ?env ''who wrote about rust''
        ''rt'' ''t0'' ex_world empty_server))) ''r1'' = Some sn \<and> ''linkedin'' \<notin> set sn"
    unfolding rid by blast
  with reply still gone show ?thesis by blast
qed

text \<open>
  The claim as worded fails on the mixed request: LinkedIn is needed and has no
  keywords, WhatsApp is needed and has one.  The reply is \<open>pending\<close> with the WhatsApp
  instruction only, and the stored \<open>sources_needed\<close> is \<open>gmail\<close> and \<open>whatsapp\<close>.  One
  submission for WhatsApp, with nothing ever submitted for LinkedIn, completes the
  entry, and when the synthesis it starts has finished the status is \<open>complete\<close>: the
  entry did not stay non-terminal until a sweep.
\<close>

theorem completed_without_the_keywordless_source:
  "fst (ask ex_env_mixed ex_world empty_server)
     = PendingReply ''r1'' [''whatsapp'']
         [\<lparr>ins_request_id = ''r1'', ins_source = ''whatsapp'', ins_keywords = [''x'']\<rparr>] \<and>
   stored_sources_needed (snd (snd (ask ex_env_mixed ex_world empty_server))) ''r1''
     = Some [''gmail'', ''whatsapp''] \<and>
   stored_status (snd (snd (ask ex_env_mixed ex_world empty_server))) ''r1'' = Some Pending \<and>
   submit_sources ''r1''
     [Submit ''alice'' ''r1'' ''whatsapp'' [''hit''],
      SynthesisDone ''r1'' (Inr (Answer ''a'')) 2000] = [''whatsapp''] \<and>
   fst (dom_results ''alice'' ''r1'' ''whatsapp'' [''hit'']
          (snd (snd (ask ex_env_mixed ex_world empty_server))))
     = DomReply Processing ''r1'' \<and>
   stored_status
     (run [Submit ''alice'' ''r1'' ''whatsapp'' [''hit''],
           SynthesisDone ''r1'' (Inr (Answer ''a'')) 2000]
        (snd (snd (ask ex_env_mixed ex_world empty_server)))) ''r1''
     = Some Complete"
proof -
  let ?l = "\<lparr>l_requestId = ''r1'', l_userId = ''alice'', l_query = ''who wrote about rust'',
             l_conversationId = None,
             l_analysis = ex_analysis\<lparr>linkedInKeywords := Some [], needsWhatsApp := True,
                                        whatsAppKeywords := Some [''x'']\<rparr>,
             l_accessToken = ''t0'',
             l_results = [ex_hit ''gmail'' ''mail-1''],
             l_sourcesNeeded = [''gmail'', ''whatsapp''],
             l_domInstructions =
               [\<lparr>ins_request_id = ''r1'', ins_source = ''whatsapp'', ins_keywords = [''x'']\<rparr>],
             l_gmailPlan = Some ex_plan\<rparr>"
  have a: "ask ex_env_mixed ex_world empty_server =
     (PendingReply ''r1'' [''whatsapp'']
        [\<lparr>ins_request_id = ''r1'', ins_source = ''whatsapp'', ins_keywords = [''x'']\<rparr>],
      ex_world\<lparr>gmail_calls := [''t0'']\<rparr>, snd (register_pending ?l 1000 empty_server))"
    by (simp add: ask_def check_token_def ex_env_mixed_def ex_env_def needsRefresh_def
        ask_process_def initial_locals_def ex_analysis_def fetch_gmail_def fetch_calendar_def
        retryOn401_def call_searchGmail_def ex_world_def ex_plan_def add_linkedin_def
        add_whatsapp_def needsExtension_def register_pending_def Let_def)
  show ?thesis
    unfolding a fst_conv snd_conv
    by (simp add: run_def ex_defs handler_defs store_obs_defs Let_def)
qed

end
